theory Spec2Isabelle
  imports Complex_Main "HOL-Library.Sublist" "HOL-Library.Multiset"
begin

section \<open>Chunker\<close>

text \<open>
  A JavaScript string is the sequence of its UTF-16 code units; the functions below are
  polymorphic in the type of the units, and the examples use \<^typ>\<open>string\<close>.

  \<^verbatim>\<open>String.prototype.substring(indexStart, indexEnd)\<close> clamps both arguments to
  \<open>[0, length]\<close>, swaps them when the first is larger and returns the units in between.
\<close>

definition substring :: "'a list \<Rightarrow> int \<Rightarrow> int \<Rightarrow> 'a list" where
  "substring str indexStart indexEnd =
     (let len = int (length str);
          finalStart = min (max indexStart 0) len;
          finalEnd = min (max indexEnd 0) len;
          from = min finalStart finalEnd;
          to = max finalStart finalEnd
      in take (nat (to - from)) (drop (nat from) str))"

text \<open>
  \<^verbatim>\<open>function chunkText(text: string, chunkSize = 1000): string[] {
    const chunks: string[] = [];
    for (let i = 0; i < text.length; i += chunkSize) {
        chunks.push(text.substring(i, i + chunkSize));
    }
    return chunks;
}\<close>

  \<open>chunkSize\<close> ranges over the integers (the contract's \<open>chunkSize: int\<close>; the only
  call site passes the default). The loop has no guard on it. For \<open>chunkSize > 0\<close>, and
  for the empty text, the loop ends and the call returns the chunks: the result is
  \<open>Some chunks\<close>. For \<open>chunkSize \<le> 0\<close> on a non-empty text the index never passes the
  end of the text: the running program pushes empty chunks until the engine refuses to
  grow the array (\<open>RangeError: Invalid array length\<close>). The model puts no bound on the
  length of an array, so it has no result for such a call, and nothing below is stated
  about that case.
\<close>

partial_function (option) chunkText_loop ::
  "'a list \<Rightarrow> int \<Rightarrow> int \<Rightarrow> 'a list list \<Rightarrow> 'a list list option" where
  "chunkText_loop text chunkSize i chunks =
     (if i < int (length text)
      then chunkText_loop text chunkSize (i + chunkSize)
             (chunks @ [substring text i (i + chunkSize)])
      else Some chunks)"

declare chunkText_loop.simps [code]

definition chunkText :: "'a list \<Rightarrow> int \<Rightarrow> 'a list list option" where
  "chunkText text chunkSize = chunkText_loop text chunkSize 0 []"

definition chunkText_default :: "'a list \<Rightarrow> 'a list list option" where
  "chunkText_default text = chunkText text 1000"

subsection \<open>Positive chunk sizes\<close>

lemma substring_chunk:
  assumes "0 \<le> i" "i < int (length text)" "0 < c"
  shows "substring text i (i + c) = take (nat c) (drop (nat i) text)"
  using assms by (auto simp: substring_def Let_def min_def max_def)

text \<open>
  The loop invariant, by induction on the distance of \<open>i\<close> from the end of the text: the
  chunks still to be pushed spell the rest of the text, none is pushed once \<open>i\<close> has
  reached the end, and all but the last are full.
\<close>

lemma chunkText_loop_positive:
  assumes "0 < c" "0 \<le> i"
  shows "\<exists>rest. chunkText_loop text c i acc = Some (acc @ rest)
            \<and> concat rest = drop (nat i) text
            \<and> (int (length text) \<le> i \<longrightarrow> rest = [])
            \<and> (\<forall>j. Suc j < length rest \<longrightarrow> int (length (rest ! j)) = c)"
  using assms
proof (induction "nat (int (length text) - i)" arbitrary: i acc rule: less_induct)
  case less
  show ?case
  proof (cases "i < int (length text)")
    case False
    then have "chunkText_loop text c i acc = Some (acc @ [])"
      by (subst chunkText_loop.simps) simp
    with False show ?thesis by auto
  next
    case True
    let ?s = "substring text i (i + c)"
    have s: "?s = take (nat c) (drop (nat i) text)"
      using substring_chunk [OF less.prems(2) True less.prems(1)] .
    have "nat (int (length text) - (i + c)) < nat (int (length text) - i)"
      using True less.prems by linarith
    from less.hyps [OF this less.prems(1), of "acc @ [?s]"] less.prems
    obtain rest where r:
      "chunkText_loop text c (i + c) (acc @ [?s]) = Some ((acc @ [?s]) @ rest)"
      "concat rest = drop (nat (i + c)) text"
      "int (length text) \<le> i + c \<longrightarrow> rest = []"
      "\<forall>j. Suc j < length rest \<longrightarrow> int (length (rest ! j)) = c"
      by auto
    have unfold: "chunkText_loop text c i acc = Some (acc @ (?s # rest))"
      using True r(1) by (subst chunkText_loop.simps) simp
    have "nat (i + c) = nat c + nat i" using less.prems by linarith
    then have cc: "concat (?s # rest) = drop (nat i) text"
      using r(2) s by (simp add: drop_drop [symmetric] del: drop_drop)
    have sizes: "int (length ((?s # rest) ! j)) = c" if "Suc j < length (?s # rest)" for j
    proof (cases j)
      case 0
      with that have "rest \<noteq> []" by auto
      with r(3) have "i + c < int (length text)" by auto
      then show ?thesis using 0 s less.prems by auto
    next
      case (Suc k)
      with that r(4) show ?thesis by auto
    qed
    show ?thesis
    proof (intro exI conjI allI impI)
      show "chunkText_loop text c i acc = Some (acc @ (?s # rest))" by (rule unfold)
      show "concat (?s # rest) = drop (nat i) text" by (rule cc)
      show "?s # rest = []" if "int (length text) \<le> i" using that True by simp
      show "int (length ((?s # rest) ! j)) = c" if "Suc j < length (?s # rest)" for j
        using that by (rule sizes)
    qed
  qed
qed

text \<open>
  C1. For every text and every \<open>chunkSize > 0\<close>, \<open>chunkText\<close> returns; the chunks it
  returns, concatenated in order, are the text; and every chunk but possibly the last
  has exactly \<open>chunkSize\<close> code units.
\<close>

theorem chunkText_concat_and_sizes:
  assumes "0 < chunkSize"
  shows "\<exists>chunks. chunkText text chunkSize = Some chunks
            \<and> concat chunks = text
            \<and> (\<forall>j. Suc j < length chunks \<longrightarrow> int (length (chunks ! j)) = chunkSize)"
  using chunkText_loop_positive [OF assms, of 0 "text" "[]"] by (auto simp: chunkText_def)

theorem chunkText_concat_and_sizes_witness:
  "(0::int) < 3
   \<and> chunkText ''abcdefg'' 3 = Some [''abc'', ''def'', ''g'']
   \<and> (\<exists>chunks. chunkText ''abcdefg'' 3 = Some chunks
          \<and> concat chunks = ''abcdefg''
          \<and> (\<forall>j. Suc j < length chunks \<longrightarrow> int (length (chunks ! j)) = 3))"
proof -
  have pos: "(0::int) < 3" by simp
  have run: "chunkText ''abcdefg'' 3 = Some [''abc'', ''def'', ''g'']" by code_simp
  from pos run chunkText_concat_and_sizes [OF pos, of "''abcdefg''"] show ?thesis
    by (intro conjI)
qed

subsection \<open>The empty text\<close>

text \<open>
  C7, as the code has it. \<open>chunkText\<close> applied to the empty text yields zero chunks for
  every \<open>chunkSize\<close>, the non-positive ones included: the loop body is never entered and
  the call returns the empty list normally.
\<close>

theorem chunkText_empty: "chunkText [] chunkSize = Some []"
  unfolding chunkText_def by (subst chunkText_loop.simps) simp

text \<open>
  C7 as stated fails at the empty text with \<open>chunkSize = 0\<close>, and with
  \<open>chunkSize = -1\<close>: the chunk size is not positive, and the call does not fail with
  \<open>InvalidConfiguration\<close>; it returns the empty list of chunks.
\<close>

theorem chunkText_nonpositive_counterexample:
  "chunkText ([] :: string) 0 = Some [] \<and> chunkText ([] :: string) (- 1) = Some []"
proof -
  have "chunkText ([] :: string) c = Some []" for c
    unfolding chunkText_def by (subst chunkText_loop.simps) simp
  then show ?thesis by (intro conjI)
qed

lemma chunkText_default_returns:
  "\<exists>chunks. chunkText_default text = Some chunks \<and> concat chunks = text"
  using chunkText_loop_positive [of 1000 0 "text" "[]"]
  by (auto simp: chunkText_default_def chunkText_def)

section \<open>Similarity ranker\<close>

subsection \<open>Numbers\<close>

text \<open>
  The claims about \<open>cosineSimilarity\<close> are claims under exact arithmetic, so a JavaScript
  number is modelled as a real number or \<open>NaN\<close>: rounding, overflow to an infinity and the
  sign of zero are outside the model. \<open>NaN\<close> is kept because the code can produce it without
  any rounding: reading an array past its end gives \<open>undefined\<close>, and
  \<open>a * undefined\<close> is \<open>NaN\<close>. Every operator yields \<open>NaN\<close> on a \<open>NaN\<close> operand, and
  every comparison with \<open>NaN\<close> is false.

  A division by zero is \<open>NaN\<close> for \<open>0 / 0\<close> and an infinity otherwise; \<open>jsdiv\<close> maps
  both to \<open>NaN\<close>, and \<open>cosineSimilarity\<close> never reaches either case (it returns \<open>0\<close>
  before dividing whenever a magnitude is zero).
\<close>

datatype num = Num real | NaN

fun jsadd :: "num \<Rightarrow> num \<Rightarrow> num" where
  "jsadd (Num a) (Num b) = Num (a + b)"
| "jsadd _ _ = NaN"

fun jssub :: "num \<Rightarrow> num \<Rightarrow> num" where
  "jssub (Num a) (Num b) = Num (a - b)"
| "jssub _ _ = NaN"

fun jsmul :: "num \<Rightarrow> num \<Rightarrow> num" where
  "jsmul (Num a) (Num b) = Num (a * b)"
| "jsmul _ _ = NaN"

fun jsdiv :: "num \<Rightarrow> num \<Rightarrow> num" where
  "jsdiv (Num a) (Num b) = (if b = 0 then NaN else Num (a / b))"
| "jsdiv _ _ = NaN"

fun jssqrt :: "num \<Rightarrow> num" where
  "jssqrt (Num a) = (if a < 0 then NaN else Num (sqrt a))"
| "jssqrt NaN = NaN"

text \<open>\<open>a >= b\<close> on numbers.\<close>

fun jsge :: "num \<Rightarrow> num \<Rightarrow> bool" where
  "jsge (Num a) (Num b) = (b \<le> a)"
| "jsge _ _ = False"

text \<open>\<open>vec[i]\<close> as an operand of arithmetic: \<open>undefined\<close>, hence \<open>NaN\<close>, past the end.\<close>

definition at_index :: "real list \<Rightarrow> nat \<Rightarrow> num" where
  "at_index vec i = (if i < length vec then Num (vec ! i) else NaN)"

text \<open>
  \<^verbatim>\<open>Array.prototype.reduce(callbackFn, initialValue)\<close>: the callback receives the
  accumulator, the current element and its index.
\<close>

fun reduce_from :: "('b \<Rightarrow> 'a \<Rightarrow> nat \<Rightarrow> 'b) \<Rightarrow> 'b \<Rightarrow> 'a list \<Rightarrow> nat \<Rightarrow> 'b" where
  "reduce_from callbackFn accumulator [] i = accumulator"
| "reduce_from callbackFn accumulator (x # xs) i =
     reduce_from callbackFn (callbackFn accumulator x i) xs (Suc i)"

definition reduce :: "('b \<Rightarrow> 'a \<Rightarrow> nat \<Rightarrow> 'b) \<Rightarrow> 'b \<Rightarrow> 'a list \<Rightarrow> 'b" where
  "reduce callbackFn initialValue xs = reduce_from callbackFn initialValue xs 0"

subsection \<open>Cosine similarity\<close>

text \<open>
  \<^verbatim>\<open>function cosineSimilarity(vecA: number[], vecB: number[]): number {
    const dotProduct = vecA.reduce((sum, a, i) => sum + a * vecB[i], 0);
    const magnitudeA = Math.sqrt(vecA.reduce((sum, a) => sum + a * a, 0));
    const magnitudeB = Math.sqrt(vecB.reduce((sum, b) => sum + b * b, 0));
    if (magnitudeA === 0 || magnitudeB === 0) {
        return 0;
    }
    return dotProduct / (magnitudeA * magnitudeB);
}\<close>

  The components of a vector are numbers of the embedding service's JSON response, so
  they are real numbers.
\<close>

definition cosineSimilarity :: "real list \<Rightarrow> real list \<Rightarrow> num" where
  "cosineSimilarity vecA vecB =
     (let dotProduct =
            reduce (\<lambda>sum a i. jsadd sum (jsmul (Num a) (at_index vecB i))) (Num 0) vecA;
          magnitudeA = jssqrt (reduce (\<lambda>sum a i. jsadd sum (jsmul (Num a) (Num a))) (Num 0) vecA);
          magnitudeB = jssqrt (reduce (\<lambda>sum b i. jsadd sum (jsmul (Num b) (Num b))) (Num 0) vecB)
      in if magnitudeA = Num 0 \<or> magnitudeB = Num 0 then Num 0
         else jsdiv dotProduct (jsmul magnitudeA magnitudeB))"

text \<open>The magnitude of a vector, as \<open>cosineSimilarity\<close> computes it for each argument.\<close>

definition magnitude :: "real list \<Rightarrow> num" where
  "magnitude vec = jssqrt (reduce (\<lambda>sum a i. jsadd sum (jsmul (Num a) (Num a))) (Num 0) vec)"

text \<open>The mathematical counterparts: the dot product and the sum of squares.\<close>

definition dot :: "real list \<Rightarrow> real list \<Rightarrow> real" where
  "dot a b = (\<Sum>(x, y)\<leftarrow>zip a b. x * y)"

definition sumsq :: "real list \<Rightarrow> real" where
  "sumsq a = (\<Sum>x\<leftarrow>a. x * x)"

lemma reduce_from_squares:
  "reduce_from (\<lambda>sum a i. jsadd sum (Num (a * a))) (Num s) xs i = Num (s + sumsq xs)"
  by (induction xs arbitrary: s i) (simp_all add: sumsq_def algebra_simps)

lemma reduce_from_products:
  "i + length xs \<le> length vecB \<Longrightarrow>
   reduce_from (\<lambda>sum a i. jsadd sum (jsmul (Num a) (at_index vecB i))) (Num s) xs i
     = Num (s + dot xs (drop i vecB))"
proof (induction xs arbitrary: s i)
  case Nil
  then show ?case by (simp add: dot_def)
next
  case (Cons x xs)
  then have i: "i < length vecB" by simp
  then have d: "drop i vecB = vecB ! i # drop (Suc i) vecB"
    by (simp add: Cons_nth_drop_Suc)
  from Cons.prems have "Suc i + length xs \<le> length vecB" by simp
  from Cons.IH [OF this] i show ?case
    by (simp add: at_index_def d dot_def algebra_simps)
qed

lemma reduce_from_NaN:
  "reduce_from (\<lambda>sum a i. jsadd sum (jsmul (Num a) (at_index vecB i))) NaN xs i = NaN"
  by (induction xs arbitrary: i) simp_all

lemma reduce_from_products_short:
  "length vecB < i + length xs \<Longrightarrow> i \<le> length vecB \<Longrightarrow>
   reduce_from (\<lambda>sum a i. jsadd sum (jsmul (Num a) (at_index vecB i))) acc xs i = NaN"
proof (induction xs arbitrary: acc i)
  case Nil
  then show ?case by simp
next
  case (Cons x xs)
  show ?case
  proof (cases "i < length vecB")
    case True
    with Cons.prems Cons.IH [of "Suc i"] show ?thesis by simp
  next
    case False
    then have "at_index vecB i = NaN" by (simp add: at_index_def)
    then show ?thesis by (cases acc) (simp_all add: reduce_from_NaN)
  qed
qed

lemma sumsq_nonneg: "0 \<le> sumsq a"
  unfolding sumsq_def by (induction a) simp_all

lemma sumsq_eq_0_iff: "sumsq a = 0 \<longleftrightarrow> (\<forall>x\<in>set a. x = 0)"
  unfolding sumsq_def by (subst sum_list_nonneg_eq_0_iff) auto

lemma dot_self: "dot a a = sumsq a"
  by (simp add: dot_def sumsq_def zip_same_conv_map comp_def)

lemma dot_commute: "dot a b = dot b a"
proof -
  have "zip a b = map (\<lambda>(x, y). (y, x)) (zip b a)" by (rule zip_commute)
  then show ?thesis by (simp add: dot_def comp_def case_prod_unfold mult.commute)
qed

lemma magnitude_value:
  "jssqrt (reduce (\<lambda>sum a i. jsadd sum (Num (a * a))) (Num 0) vec) = Num (sqrt (sumsq vec))"
  using sumsq_nonneg [of vec] by (simp add: reduce_def reduce_from_squares)

lemma magnitude_eq: "magnitude vec = Num (sqrt (sumsq vec))"
  by (simp add: magnitude_def magnitude_value)

lemma dotProduct_value:
  "length vecA \<le> length vecB \<Longrightarrow>
   reduce (\<lambda>sum a i. jsadd sum (jsmul (Num a) (at_index vecB i))) (Num 0) vecA
     = Num (dot vecA vecB)"
  using reduce_from_products [of 0 vecA vecB 0] by (simp add: reduce_def)

text \<open>
  When \<open>vecB\<close> has at least the components of \<open>vecA\<close>, the function computes the
  textbook formula, with the value \<open>0\<close> at a zero vector.
\<close>

lemma cosineSimilarity_value:
  "length vecA \<le> length vecB \<Longrightarrow>
   cosineSimilarity vecA vecB =
     (if sumsq vecA = 0 \<or> sumsq vecB = 0 then Num 0
      else Num (dot vecA vecB / (sqrt (sumsq vecA) * sqrt (sumsq vecB))))"
  by (simp add: cosineSimilarity_def magnitude_value dotProduct_value Let_def)

lemma cosineSimilarity_zero_magnitude:
  "sumsq vecA = 0 \<or> sumsq vecB = 0 \<Longrightarrow> cosineSimilarity vecA vecB = Num 0"
  by (auto simp add: cosineSimilarity_def magnitude_value Let_def)

text \<open>
  When \<open>vecB\<close> is shorter than \<open>vecA\<close> and neither is a zero vector, the dot product
  reads \<open>vecB\<close> past its end and the result is \<open>NaN\<close>.
\<close>

lemma cosineSimilarity_short:
  assumes "length vecB < length vecA" and "sumsq vecA \<noteq> 0" and "sumsq vecB \<noteq> 0"
  shows "cosineSimilarity vecA vecB = NaN"
proof -
  have "reduce (\<lambda>sum a i. jsadd sum (jsmul (Num a) (at_index vecB i))) (Num 0) vecA = NaN"
    using assms(1) reduce_from_products_short [of vecB 0 vecA "Num 0"] by (simp add: reduce_def)
  with assms(2,3) show ?thesis
    by (simp add: cosineSimilarity_def magnitude_value Let_def)
qed

lemma cosineSimilarity_examples:
  "cosineSimilarity [1, 0] [1, 0] = Num 1"
  "cosineSimilarity [1, 0] [0, 1] = Num 0"
  "cosineSimilarity [1, 0] [- 1, 0] = Num (- 1)"
  "cosineSimilarity [1, 0] [0, - 1] = Num 0"
  "cosineSimilarity [1, 0] [0, 0] = Num 0"
  "cosineSimilarity [1, 0] [1] = NaN"
  "cosineSimilarity [1] [1, 0] = Num 1"
  by (simp_all add: cosineSimilarity_def reduce_def at_index_def)

text \<open>
  C3. If either argument is a zero vector, or has magnitude zero, \<open>cosineSimilarity\<close>
  returns exactly \<open>0\<close>; and for every vector \<open>v\<close> with a non-zero component,
  \<open>cosineSimilarity v v\<close> is \<open>1\<close> (under exact arithmetic).
\<close>

theorem cosineSimilarity_self_and_zero:
  "((\<forall>x\<in>set a. x = 0) \<or> (\<forall>x\<in>set b. x = 0) \<or> magnitude a = Num 0 \<or> magnitude b = Num 0
      \<longrightarrow> cosineSimilarity a b = Num 0)
   \<and> ((\<exists>x\<in>set v. x \<noteq> 0) \<longrightarrow> cosineSimilarity v v = Num 1)"
proof (intro conjI impI)
  assume "(\<forall>x\<in>set a. x = 0) \<or> (\<forall>x\<in>set b. x = 0) \<or> magnitude a = Num 0 \<or> magnitude b = Num 0"
  then have "sumsq a = 0 \<or> sumsq b = 0" by (auto simp: sumsq_eq_0_iff magnitude_eq)
  then show "cosineSimilarity a b = Num 0" by (rule cosineSimilarity_zero_magnitude)
next
  assume "\<exists>x\<in>set v. x \<noteq> 0"
  then have nz: "sumsq v \<noteq> 0" by (simp add: sumsq_eq_0_iff)
  with sumsq_nonneg [of v] have "sqrt (sumsq v) * sqrt (sumsq v) = sumsq v" by simp
  with nz show "cosineSimilarity v v = Num 1"
    by (simp add: cosineSimilarity_value dot_self)
qed

theorem cosineSimilarity_self_and_zero_witness:
  "cosineSimilarity [0, 0] [1, 2] = Num 0
   \<and> cosineSimilarity [1, 2] [0, 0] = Num 0
   \<and> cosineSimilarity [3, 4] [3, 4] = Num 1"
  using cosineSimilarity_self_and_zero [of "[0, 0]" "[1, 2]" "[3, 4]"]
    cosineSimilarity_self_and_zero [of "[1, 2]" "[0, 0]" "[3, 4]"]
  by simp

text \<open>
  C10. \<open>cosineSimilarity\<close> is symmetric on vectors of equal length.
\<close>

theorem cosineSimilarity_symmetric:
  "length a = length b \<Longrightarrow> cosineSimilarity a b = cosineSimilarity b a"
  by (simp add: cosineSimilarity_value dot_commute mult.commute disj_commute)

theorem cosineSimilarity_symmetric_witness:
  "length [1, 2 :: real] = length [3, 4 :: real]
   \<and> cosineSimilarity [1, 2] [3, 4] = cosineSimilarity [3, 4] [1, 2]"
  using cosineSimilarity_symmetric [of "[1, 2]" "[3, 4]"] by simp

section \<open>Sorting and slicing arrays\<close>

text \<open>
  \<^verbatim>\<open>Array.prototype.sort(comparefn)\<close> is the language's own, and the program runs on
  V8 (Node.js). The sort reads the sign of what the comparator returns, and a result of
  \<open>NaN\<close> as \<open>+0\<close>.
\<close>

definition sortCompare :: "('a \<Rightarrow> 'a \<Rightarrow> num) \<Rightarrow> 'a \<Rightarrow> 'a \<Rightarrow> real" where
  "sortCompare comparefn x y = (case comparefn x y of Num v \<Rightarrow> v | NaN \<Rightarrow> 0)"

text \<open>
  Since ECMAScript 2019 the sort is stable, and for a consistent comparator the standard
  fixes the result. A comparator that returns \<open>NaN\<close> is not consistent, and the order is
  then the engine's, so the model follows the engine. On an array of fewer than 64
  elements V8 finds the run that the array starts with (\<open>CountAndMakeRun\<close>: the first
  two elements decide whether the run is strictly descending, and such a run is
  reversed) and inserts every further element into the sorted part at the place a binary
  search gives (\<open>BinaryInsertionSort\<close>).

  On 64 elements or more V8 sorts stretches of the array in this way and merges them;
  the model treats the whole array as one stretch. For a consistent comparator both give
  the one stable sorted arrangement, so the model can differ from the engine only on an
  array of 64 or more elements with a comparator that returns \<open>NaN\<close>.
\<close>

text \<open>
  The loop of \<open>CountAndMakeRun\<close>: how many of the elements after the first two go on
  with the run.
  \<^verbatim>\<open>for (let idx = low + 1; idx < high; ++idx) {
  const currentElement = workArray[idx];
  order = sortState.Compare(currentElement, previousElement);
  if (isDescending) { if (order >= 0) break; } else { if (order < 0) break; }
  previousElement = currentElement;
  ++runLength;
}\<close>
\<close>

fun run_extends :: "('a \<Rightarrow> 'a \<Rightarrow> num) \<Rightarrow> bool \<Rightarrow> 'a \<Rightarrow> 'a list \<Rightarrow> nat" where
  "run_extends comparefn isDescending previousElement [] = 0"
| "run_extends comparefn isDescending previousElement (currentElement # rest) =
     (let order = sortCompare comparefn currentElement previousElement
      in if isDescending
         then (if order \<ge> 0 then 0
               else Suc (run_extends comparefn isDescending currentElement rest))
         else (if order < 0 then 0
               else Suc (run_extends comparefn isDescending currentElement rest)))"

text \<open>\<open>CountAndMakeRun\<close>: the length of the first run, and the array with the run made.\<close>

fun countAndMakeRun :: "('a \<Rightarrow> 'a \<Rightarrow> num) \<Rightarrow> 'a list \<Rightarrow> nat \<times> 'a list" where
  "countAndMakeRun comparefn (elementHigh # elementLow # rest) =
     (let workArray = elementHigh # elementLow # rest;
          order = sortCompare comparefn elementLow elementHigh;
          isDescending = order < 0;
          runLength = 2 + run_extends comparefn isDescending elementLow rest
      in (runLength,
          if isDescending then rev (take runLength workArray) @ drop runLength workArray
          else workArray))"
| "countAndMakeRun comparefn workArray = (length workArray, workArray)"

text \<open>
  The search of \<open>BinaryInsertionSort\<close> for the place of \<open>pivot\<close> in the sorted part:
  \<^verbatim>\<open>while (left < right) {
  const mid = left + ((right - left) >> 1);
  const order = sortState.Compare(pivot, workArray[mid]);
  if (order < 0) { right = mid; } else { left = mid + 1; }
}\<close>
\<close>

function binarySearch :: "('a \<Rightarrow> 'a \<Rightarrow> num) \<Rightarrow> 'a \<Rightarrow> 'a list \<Rightarrow> nat \<Rightarrow> nat \<Rightarrow> nat" where
  "binarySearch comparefn pivot workArray left right =
     (if left < right
      then (let mid = left + (right - left) div 2;
                order = sortCompare comparefn pivot (workArray ! mid)
            in if order < 0 then binarySearch comparefn pivot workArray left mid
               else binarySearch comparefn pivot workArray (mid + 1) right)
      else left)"
  by pat_completeness auto
termination
  by (relation "measure (\<lambda>(comparefn, pivot, workArray, left, right). right - left)") auto

declare binarySearch.simps [simp del]

text \<open>
  \<open>BinaryInsertionSort\<close>, over the part already sorted and the elements still to be
  placed: each is inserted at the index found, the elements from there on moving up.
\<close>

fun binaryInsertionSort :: "('a \<Rightarrow> 'a \<Rightarrow> num) \<Rightarrow> 'a list \<Rightarrow> 'a list \<Rightarrow> 'a list" where
  "binaryInsertionSort comparefn placed [] = placed"
| "binaryInsertionSort comparefn placed (pivot # rest) =
     (let left = binarySearch comparefn pivot placed 0 (length placed)
      in binaryInsertionSort comparefn (take left placed @ pivot # drop left placed) rest)"

definition array_sort :: "('a \<Rightarrow> 'a \<Rightarrow> num) \<Rightarrow> 'a list \<Rightarrow> 'a list" where
  "array_sort comparefn xs =
     (if length xs < 2 then xs
      else (let (runLength, workArray) = countAndMakeRun comparefn xs
            in binaryInsertionSort comparefn (take runLength workArray)
                 (drop runLength workArray)))"

text \<open>
  \<^verbatim>\<open>Array.prototype.slice(start, end)\<close>: a negative index counts from the end, and both
  are clamped to the array.
\<close>

definition slice :: "'a list \<Rightarrow> int \<Rightarrow> int \<Rightarrow> 'a list" where
  "slice xs startIndex endIndex =
     (let len = int (length xs);
          k = (if startIndex < 0 then max (len + startIndex) 0 else min startIndex len);
          final = (if endIndex < 0 then max (len + endIndex) 0 else min endIndex len)
      in take (nat (final - k)) (drop (nat k) xs))"

lemma slice_from_0: "0 \<le> n \<Longrightarrow> slice xs 0 n = take (nat n) xs"
  by (auto simp: slice_def Let_def min_def)

subsection \<open>The sort rearranges\<close>

text \<open>Whatever the comparator returns, the sorted array has the elements of the array.\<close>

lemma mset_binaryInsertionSort:
  "mset (binaryInsertionSort c placed rest) = mset placed + mset rest"
proof (induction rest arbitrary: placed)
  case Nil
  then show ?case by simp
next
  case (Cons pivot rest)
  let ?left = "binarySearch c pivot placed 0 (length placed)"
  have "mset (take ?left placed) + mset (drop ?left placed) = mset placed"
    by (metis append_take_drop_id mset_append)
  then have "mset (take ?left placed @ pivot # drop ?left placed) = mset placed + {#pivot#}"
    by simp
  with Cons.IH [of "take ?left placed @ pivot # drop ?left placed"] show ?case
    by (simp add: Let_def)
qed

lemma run_extends_le: "run_extends c d prev rest \<le> length rest"
  by (induction rest arbitrary: prev) (auto simp: Let_def)

lemma mset_rev_take_drop: "mset (rev (take n xs) @ drop n xs) = mset xs"
  by (metis append_take_drop_id mset_append mset_rev)

lemma mset_countAndMakeRun: "mset (snd (countAndMakeRun c xs)) = mset xs"
proof (cases xs)
  case Nil
  then show ?thesis by simp
next
  case (Cons a ys)
  then show ?thesis
    by (cases ys)
       (simp_all add: Let_def mset_rev_take_drop
          del: take_Suc_Cons drop_Suc_Cons rev.simps mset_append mset_rev)
qed

lemma mset_array_sort [simp]: "mset (array_sort c xs) = mset xs"
proof (cases "length xs < 2")
  case True
  then show ?thesis by (simp add: array_sort_def)
next
  case False
  obtain n w where nw: "countAndMakeRun c xs = (n, w)" by (cases "countAndMakeRun c xs")
  with mset_countAndMakeRun [of c xs] have "mset w = mset xs" by simp
  moreover have "mset (take n w) + mset (drop n w) = mset w"
    by (metis append_take_drop_id mset_append)
  ultimately show ?thesis using False nw
    by (simp add: array_sort_def mset_binaryInsertionSort)
qed

lemma set_array_sort [simp]: "set (array_sort c xs) = set xs"
  by (metis mset_array_sort set_mset_mset)

lemma length_array_sort [simp]: "length (array_sort c xs) = length xs"
  by (metis mset_array_sort size_mset)

subsection \<open>The sort orders and is stable when the comparator is a difference of keys\<close>

text \<open>
  A comparator that returns, on the elements of the array, the difference \<open>k y - k x\<close> of
  a real key puts the larger key first. The sorted array is then in descending order of
  the key, and the elements of any one key keep their order.
\<close>

definition agrees :: "('a \<Rightarrow> 'a \<Rightarrow> num) \<Rightarrow> ('a \<Rightarrow> real) \<Rightarrow> 'a set \<Rightarrow> bool" where
  "agrees c k S = (\<forall>x\<in>S. \<forall>y\<in>S. sortCompare c x y = k y - k x)"

abbreviation desc :: "('a \<Rightarrow> real) \<Rightarrow> 'a list \<Rightarrow> bool" where
  "desc k xs \<equiv> sorted_wrt (\<lambda>a b. k b \<le> k a) xs"

lemma agrees_mono: "agrees c k S \<Longrightarrow> T \<subseteq> S \<Longrightarrow> agrees c k T"
  by (auto simp: agrees_def)

text \<open>
  The invariant of the search, as the engine's source states it: the pivot is not above
  the elements left of \<open>left\<close>, and is above the elements from \<open>right\<close> on.
\<close>

lemma binarySearch_partition:
  fixes k :: "'a \<Rightarrow> real"
  assumes "agrees c k (insert pivot (set w))" "desc k w"
    and "left \<le> right" "right \<le> length w"
    and "\<forall>i<left. k pivot \<le> k (w ! i)"
    and "\<forall>i. right \<le> i \<and> i < length w \<longrightarrow> k (w ! i) < k pivot"
  shows "binarySearch c pivot w left right \<le> length w
       \<and> (\<forall>i<binarySearch c pivot w left right. k pivot \<le> k (w ! i))
       \<and> (\<forall>i. binarySearch c pivot w left right \<le> i \<and> i < length w
               \<longrightarrow> k (w ! i) < k pivot)"
  using assms
proof (induction c pivot w left right rule: binarySearch.induct)
  case (1 c pivot w left right)
  show ?case
  proof (cases "left < right")
    case False
    with "1.prems" have "left = right" by simp
    with False "1.prems" show ?thesis by (simp add: binarySearch.simps)
  next
    case True
    define mid where "mid = left + (right - left) div 2"
    have mid: "left \<le> mid" "mid < right" using True by (auto simp: mid_def)
    then have midw: "mid < length w" using "1.prems"(4) by simp
    have order: "sortCompare c pivot (w ! mid) = k (w ! mid) - k pivot"
      using "1.prems"(1) midw by (simp add: agrees_def)
    have sorted: "k (w ! j) \<le> k (w ! i)" if "i \<le> j" "j < length w" for i j
    proof (cases "i = j")
      case True
      then show ?thesis by simp
    next
      case False
      with that have "i < j" by simp
      with "1.prems"(2) that(2) show ?thesis
        by (simp add: sorted_wrt_iff_nth_less)
    qed
    show ?thesis
    proof (cases "sortCompare c pivot (w ! mid) < 0")
      case less: True
      have unfold: "binarySearch c pivot w left right = binarySearch c pivot w left mid"
        using True less by (subst binarySearch.simps) (simp add: mid_def Let_def)
      have upper: "\<forall>i. mid \<le> i \<and> i < length w \<longrightarrow> k (w ! i) < k pivot"
      proof (intro allI impI)
        fix i assume "mid \<le> i \<and> i < length w"
        then have "k (w ! i) \<le> k (w ! mid)" using sorted by blast
        with less order show "k (w ! i) < k pivot" by simp
      qed
      from "1.IH"(1) [OF True mid_def refl less "1.prems"(1,2) mid(1) _ "1.prems"(5) upper] midw
      show ?thesis unfolding unfold by simp
    next
      case geq: False
      have unfold: "binarySearch c pivot w left right = binarySearch c pivot w (mid + 1) right"
        using True geq by (subst binarySearch.simps) (simp add: mid_def Let_def)
      have lower: "\<forall>i<mid + 1. k pivot \<le> k (w ! i)"
      proof (intro allI impI)
        fix i assume "i < mid + 1"
        then have "k (w ! mid) \<le> k (w ! i)" using sorted midw by simp
        with geq order show "k pivot \<le> k (w ! i)" by simp
      qed
      from "1.IH"(2) [OF True mid_def refl geq "1.prems"(1,2) _ "1.prems"(4) lower "1.prems"(6)]
        mid
      show ?thesis unfolding unfold by simp
    qed
  qed
qed

lemma insert_at_partition:
  fixes k :: "'a \<Rightarrow> real"
  assumes "desc k w" "m \<le> length w"
    and "\<forall>i<m. k pivot \<le> k (w ! i)"
    and "\<forall>i. m \<le> i \<and> i < length w \<longrightarrow> k (w ! i) < k pivot"
  shows "desc k (take m w @ pivot # drop m w)"
    and "filter (\<lambda>d. k d = v) (take m w @ pivot # drop m w)
           = filter (\<lambda>d. k d = v) w @ (if k pivot = v then [pivot] else [])"
proof -
  have before: "\<forall>x\<in>set (take m w). k pivot \<le> k x"
    using assms(2,3) by (auto simp: in_set_conv_nth)
  have after: "\<forall>x\<in>set (drop m w). k x < k pivot"
  proof
    fix x assume "x \<in> set (drop m w)"
    then obtain i where "i < length w - m" "x = w ! (m + i)"
      by (auto simp: in_set_conv_nth)
    with assms(4) show "k x < k pivot" by simp
  qed
  have parts: "desc k (take m w)" "desc k (drop m w)"
    using assms(1) by (simp_all add: sorted_wrt_take sorted_wrt_drop)
  have cross: "\<forall>x\<in>set (take m w). \<forall>y\<in>set (drop m w). k y \<le> k x"
    using before after by fastforce
  show "desc k (take m w @ pivot # drop m w)"
    using parts before after cross by (auto simp: sorted_wrt_append less_imp_le)
  have "filter (\<lambda>d. k d = v) (drop m w) = []" if "k pivot = v"
    using after that by (auto simp: filter_empty_conv)
  moreover have "filter (\<lambda>d. k d = v) w
      = filter (\<lambda>d. k d = v) (take m w) @ filter (\<lambda>d. k d = v) (drop m w)"
    by (simp flip: filter_append)
  ultimately show "filter (\<lambda>d. k d = v) (take m w @ pivot # drop m w)
           = filter (\<lambda>d. k d = v) w @ (if k pivot = v then [pivot] else [])"
    by simp
qed

lemma binaryInsertionSort_stable:
  fixes k :: "'a \<Rightarrow> real"
  assumes "agrees c k (set placed \<union> set rest)" "desc k placed"
  shows "desc k (binaryInsertionSort c placed rest)
       \<and> filter (\<lambda>d. k d = v) (binaryInsertionSort c placed rest)
           = filter (\<lambda>d. k d = v) (placed @ rest)"
  using assms
proof (induction rest arbitrary: placed)
  case Nil
  then show ?case by simp
next
  case (Cons pivot rest)
  let ?m = "binarySearch c pivot placed 0 (length placed)"
  let ?next = "take ?m placed @ pivot # drop ?m placed"
  have ag: "agrees c k (insert pivot (set placed))"
    using Cons.prems(1) by (rule agrees_mono) auto
  from binarySearch_partition [OF ag Cons.prems(2), of 0 "length placed"]
  have m: "?m \<le> length placed" "\<forall>i<?m. k pivot \<le> k (placed ! i)"
    "\<forall>i. ?m \<le> i \<and> i < length placed \<longrightarrow> k (placed ! i) < k pivot"
    by simp_all
  note ins = insert_at_partition [OF Cons.prems(2) m]
  have "set ?next \<union> set rest = set placed \<union> set (pivot # rest)"
  proof -
    have "set (take ?m placed) \<union> set (drop ?m placed) = set placed"
      by (metis append_take_drop_id set_append)
    then show ?thesis by auto
  qed
  with Cons.prems(1) have ag': "agrees c k (set ?next \<union> set rest)" by simp
  have step: "binaryInsertionSort c placed (pivot # rest) = binaryInsertionSort c ?next rest"
    by (simp add: Let_def)
  have "filter (\<lambda>d. k d = v) (?next @ rest)
          = filter (\<lambda>d. k d = v) ?next @ filter (\<lambda>d. k d = v) rest"
    by (rule filter_append)
  also have "\<dots> = (filter (\<lambda>d. k d = v) placed @ (if k pivot = v then [pivot] else []))
                   @ filter (\<lambda>d. k d = v) rest"
    by (simp only: ins(2))
  also have "\<dots> = filter (\<lambda>d. k d = v) (placed @ pivot # rest)" by simp
  finally have "filter (\<lambda>d. k d = v) (?next @ rest)
                  = filter (\<lambda>d. k d = v) (placed @ pivot # rest)" .
  with Cons.IH [OF ag' ins(1)] show ?case by (simp only: step)
qed

text \<open>A run that is not descending is in order as it stands.\<close>

lemma run_ascending:
  fixes k :: "'a \<Rightarrow> real"
  assumes "agrees c k (insert prev (set rest))"
  shows "desc k (prev # take (run_extends c False prev rest) rest)"
  using assms
proof (induction rest arbitrary: prev)
  case Nil
  then show ?case by simp
next
  case (Cons cur rest)
  have order: "sortCompare c cur prev = k prev - k cur"
    using Cons.prems by (simp add: agrees_def)
  show ?case
  proof (cases "sortCompare c cur prev < 0")
    case True
    then show ?thesis by (simp add: Let_def)
  next
    case False
    have "agrees c k (insert cur (set rest))"
      using Cons.prems by (rule agrees_mono) auto
    from Cons.IH [OF this] have ih: "desc k (cur # take (run_extends c False cur rest) rest)" .
    from False order have "k cur \<le> k prev" by simp
    with ih have "\<forall>y\<in>set (cur # take (run_extends c False cur rest) rest). k y \<le> k prev"
      by fastforce
    with ih False show ?thesis by (simp add: Let_def)
  qed
qed

text \<open>A descending run has strictly growing keys: reversed, it is in order and has no ties.\<close>

lemma run_descending:
  fixes k :: "'a \<Rightarrow> real"
  assumes "agrees c k (insert prev (set rest))"
  shows "sorted_wrt (\<lambda>a b. k a < k b) (prev # take (run_extends c True prev rest) rest)"
  using assms
proof (induction rest arbitrary: prev)
  case Nil
  then show ?case by simp
next
  case (Cons cur rest)
  have order: "sortCompare c cur prev = k prev - k cur"
    using Cons.prems by (simp add: agrees_def)
  show ?case
  proof (cases "sortCompare c cur prev \<ge> 0")
    case True
    then show ?thesis by (simp add: Let_def)
  next
    case False
    have "agrees c k (insert cur (set rest))"
      using Cons.prems by (rule agrees_mono) auto
    from Cons.IH [OF this]
    have ih: "sorted_wrt (\<lambda>a b. k a < k b) (cur # take (run_extends c True cur rest) rest)" .
    from False order have "k prev < k cur" by simp
    with ih have "\<forall>y\<in>set (cur # take (run_extends c True cur rest) rest). k prev < k y"
      by fastforce
    with ih False show ?thesis by (simp add: Let_def)
  qed
qed

lemma strict_filter_rev:
  fixes k :: "'a \<Rightarrow> real"
  assumes "sorted_wrt (\<lambda>a b. k a < k b) xs"
  shows "filter (\<lambda>d. k d = v) (rev xs) = filter (\<lambda>d. k d = v) xs"
proof -
  have "length (filter (\<lambda>d. k d = v) xs) \<le> 1"
    using assms
  proof (induction xs)
    case Nil
    then show ?case by simp
  next
    case (Cons x xs)
    from Cons.prems have above: "\<forall>y\<in>set xs. k x < k y" by simp
    have "filter (\<lambda>d. k d = v) xs = []" if "k x = v"
      using that above by (auto simp: filter_empty_conv)
    with Cons show ?case by auto
  qed
  then have "rev (filter (\<lambda>d. k d = v) xs) = filter (\<lambda>d. k d = v) xs"
    by (cases "filter (\<lambda>d. k d = v) xs" rule: rev_cases) auto
  then show ?thesis by (simp add: rev_filter)
qed

lemma countAndMakeRun_stable:
  fixes k :: "'a \<Rightarrow> real"
  assumes "agrees c k (set xs)" "countAndMakeRun c xs = (n, w)"
  shows "desc k (take n w)
       \<and> filter (\<lambda>d. k d = v) (take n w) = filter (\<lambda>d. k d = v) (take n xs)
       \<and> drop n w = drop n xs"
proof (cases xs)
  case Nil
  with assms show ?thesis by simp
next
  case (Cons a ys)
  show ?thesis
  proof (cases ys)
    case Nil
    with Cons assms show ?thesis by auto
  next
    case ys: (Cons b zs)
    have xs: "xs = a # b # zs" using Cons ys by simp
    have ab: "sortCompare c b a = k a - k b" using assms(1) xs by (simp add: agrees_def)
    have ag: "agrees c k (insert b (set zs))" using assms(1) xs by (auto simp: agrees_def)
    show ?thesis
    proof (cases "sortCompare c b a < 0")
      case True
      let ?r = "run_extends c True b zs"
      from assms(2) xs True have n: "n = 2 + ?r" and w: "w = rev (take n xs) @ drop n xs"
        by (auto simp: Let_def)
      have tk: "take n xs = a # b # take ?r zs" using n xs by simp
      from run_descending [OF ag] True ab
      have strict: "sorted_wrt (\<lambda>a b. k a < k b) (take n xs)"
        unfolding tk by fastforce
      have len: "length (take n xs) = n" using n xs run_extends_le [of c True b zs] by simp
      then have tw: "take n w = rev (take n xs)" and dw: "drop n w = drop n xs"
        unfolding w by simp_all
      have "desc k (rev (take n xs))"
        using strict by (simp add: sorted_wrt_rev) (erule sorted_wrt_mono_rel [rotated], simp)
      with strict_filter_rev [OF strict, of v] tw dw show ?thesis by simp
    next
      case False
      let ?r = "run_extends c False b zs"
      from assms(2) xs False have n: "n = 2 + ?r" and w: "w = xs"
        by (auto simp: Let_def)
      have tk: "take n xs = a # b # take ?r zs" using n xs by simp
      from run_ascending [OF ag] False ab
      have "desc k (take n xs)" unfolding tk by fastforce
      with w show ?thesis by simp
    qed
  qed
qed

lemma array_sort_stable:
  fixes k :: "'a \<Rightarrow> real"
  assumes "agrees c k (set xs)"
  shows "desc k (array_sort c xs)
       \<and> filter (\<lambda>d. k d = v) (array_sort c xs) = filter (\<lambda>d. k d = v) xs"
proof (cases "length xs < 2")
  case True
  then have "desc k xs"
    by (cases xs) (auto simp: Suc_less_eq2 dest!: length_Suc_conv [THEN iffD1])
  with True show ?thesis by (simp add: array_sort_def)
next
  case False
  obtain n w where nw: "countAndMakeRun c xs = (n, w)" by (cases "countAndMakeRun c xs")
  note run = countAndMakeRun_stable [OF assms nw, of v]
  have "set w = set xs"
    using mset_countAndMakeRun [of c xs] nw by (metis snd_conv set_mset_mset)
  then have "set (take n w) \<union> set (drop n w) = set xs"
    by (metis append_take_drop_id set_append)
  with assms have ag: "agrees c k (set (take n w) \<union> set (drop n w))" by simp
  from binaryInsertionSort_stable [OF ag, of v] run
  have "desc k (array_sort c xs)"
    and "filter (\<lambda>d. k d = v) (array_sort c xs)
           = filter (\<lambda>d. k d = v) (take n w @ drop n w)"
    using False nw by (simp_all add: array_sort_def)
  moreover have "filter (\<lambda>d. k d = v) (take n w @ drop n w)
       = filter (\<lambda>d. k d = v) (take n xs @ drop n xs)"
    by (simp only: filter_append run [THEN conjunct2, THEN conjunct1]
          run [THEN conjunct2, THEN conjunct2])
  moreover have "filter (\<lambda>d. k d = v) (take n xs @ drop n xs) = filter (\<lambda>d. k d = v) xs"
    by (simp only: append_take_drop_id)
  ultimately show ?thesis by (simp only:)
qed

section \<open>The in-process vector store and its retrieval\<close>

text \<open>
  \<^verbatim>\<open>interface Vector { id: string; embedding: any; text: string; documentId: string; }
const vectorStore: Vector[] = [];\<close>

  The embedding of an entry is the \<open>values\<close> array that the embedding service returned
  for the chunk: a list of numbers, of the length the service chose. The mapped entries
  \<^verbatim>\<open>{ ...vector, similarity: ... }\<close> are new objects with the fields of the entry
  and its score.
\<close>

record vector =
  id_vector :: string
  embedding :: "real list"
  text_vector :: string
  documentId :: string

record scored = vector +
  similarity :: num

definition spread_similarity :: "vector \<Rightarrow> num \<Rightarrow> scored" where
  "spread_similarity vector s =
     \<lparr>id_vector = id_vector vector, embedding = embedding vector,
      text_vector = text_vector vector, documentId = documentId vector, similarity = s\<rparr>"

text \<open>
  Arrays are mutable objects, and \<open>sort\<close> works in place, so the state keeps the array
  objects apart: the module's \<open>vectorStore\<close>, and the arrays of scored entries that a
  request creates, each at its own reference. \<open>map\<close> and \<open>slice\<close> create an array;
  \<open>sort\<close> overwrites the array it is called on and returns the same reference.
\<close>

type_synonym ref = nat

record state =
  vectorStore :: "vector list"
  arrays :: "scored list list"

definition deref :: "state \<Rightarrow> ref \<Rightarrow> scored list" where
  "deref s r = (if r < length (arrays s) then arrays s ! r else [])"

definition vectorStore_map :: "(vector \<Rightarrow> scored) \<Rightarrow> state \<Rightarrow> ref \<times> state" where
  "vectorStore_map callbackFn s =
     (length (arrays s), s\<lparr>arrays := arrays s @ [map callbackFn (vectorStore s)]\<rparr>)"

definition sort_in_place ::
  "(scored \<Rightarrow> scored \<Rightarrow> num) \<Rightarrow> ref \<Rightarrow> state \<Rightarrow> ref \<times> state" where
  "sort_in_place comparefn r s =
     (r, s\<lparr>arrays := (arrays s)[r := array_sort comparefn (deref s r)]\<rparr>)"

definition slice_new :: "int \<Rightarrow> int \<Rightarrow> ref \<Rightarrow> state \<Rightarrow> ref \<times> state" where
  "slice_new startIndex endIndex r s =
     (length (arrays s), s\<lparr>arrays := arrays s @ [slice (deref s r) startIndex endIndex]\<rparr>)"

text \<open>
  Step 2 of \<open>handleChat\<close>:
  \<^verbatim>\<open>const similarDocs = vectorStore
    .map(vector => ({
        ...vector,
        similarity: cosineSimilarity(queryEmbedding, vector.embedding)
    }))
    .sort((a, b) => b.similarity - a.similarity)
    .slice(0, 5); // Get top 5 most similar chunks\<close>
\<close>

definition score :: "real list \<Rightarrow> vector \<Rightarrow> scored" where
  "score queryEmbedding vector =
     spread_similarity vector (cosineSimilarity queryEmbedding (embedding vector))"

definition by_similarity :: "scored \<Rightarrow> scored \<Rightarrow> num" where
  "by_similarity a b = jssub (similarity b) (similarity a)"

definition retrieve :: "real list \<Rightarrow> state \<Rightarrow> scored list \<times> state" where
  "retrieve queryEmbedding s0 =
     (let (mapped, s1) = vectorStore_map (score queryEmbedding) s0;
          (sorted, s2) = sort_in_place by_similarity mapped s1;
          (similarDocs, s3) = slice_new 0 5 sorted s2
      in (deref s3 similarDocs, s3))"

text \<open>
  Which matches come back, and in which order, depends on the scores and not on how they
  were computed. The same step is therefore also given over any function
  \<open>similarityOf\<close> that yields the score of an entry. \<open>cosineSimilarity\<close> above is the
  one of exact arithmetic; the running program computes in floating point, where
  rounding changes a score and an overflow of a sum can turn it into \<open>NaN\<close>. What is
  proved of \<open>retrieve_with\<close> for every \<open>similarityOf\<close> does not depend on the
  arithmetic: it holds of the program as long as each score it computes is a finite
  number or \<open>NaN\<close>. (The comparator's difference of two finite floating-point numbers
  has the sign of the exact difference, and the sort reads only the sign.)
\<close>

definition score_with ::
  "(real list \<Rightarrow> real list \<Rightarrow> num) \<Rightarrow> real list \<Rightarrow> vector \<Rightarrow> scored" where
  "score_with similarityOf queryEmbedding vector =
     spread_similarity vector (similarityOf queryEmbedding (embedding vector))"

definition retrieve_with ::
  "(real list \<Rightarrow> real list \<Rightarrow> num) \<Rightarrow> real list \<Rightarrow> state \<Rightarrow> scored list \<times> state" where
  "retrieve_with similarityOf queryEmbedding s0 =
     (let (mapped, s1) = vectorStore_map (score_with similarityOf queryEmbedding) s0;
          (sorted, s2) = sort_in_place by_similarity mapped s1;
          (similarDocs, s3) = slice_new 0 5 sorted s2
      in (deref s3 similarDocs, s3))"

lemma score_with_cosineSimilarity: "score_with cosineSimilarity q v = score q v"
  by (simp add: score_with_def score_def)

lemma retrieve_with_cosineSimilarity: "retrieve_with cosineSimilarity q s = retrieve q s"
proof -
  have "score_with cosineSimilarity q = score q"
    by (rule ext) (rule score_with_cosineSimilarity)
  then show ?thesis by (simp add: retrieve_with_def retrieve_def)
qed

text \<open>Descending order of the scores, by the language's \<open>>=\<close>.\<close>

abbreviation descending :: "scored list \<Rightarrow> bool" where
  "descending docs \<equiv> sorted_wrt (\<lambda>a b. jsge (similarity a) (similarity b)) docs"

lemma retrieve_with_value:
  "fst (retrieve_with f q s)
     = take 5 (array_sort by_similarity (map (score_with f q) (vectorStore s)))"
  by (simp add: retrieve_with_def vectorStore_map_def sort_in_place_def slice_new_def
        deref_def slice_from_0 nth_append)

lemma retrieve_value:
  "fst (retrieve q s) = take 5 (array_sort by_similarity (map (score q) (vectorStore s)))"
  by (simp add: retrieve_def vectorStore_map_def sort_in_place_def slice_new_def deref_def
        slice_from_0 nth_append)

lemma retrieve_frame: "vectorStore (snd (retrieve q s)) = vectorStore s"
  by (simp add: retrieve_def vectorStore_map_def sort_in_place_def slice_new_def)

text \<open>The sort does work in place: the mapped array itself ends up sorted.\<close>

lemma retrieve_sorts_mapped_array:
  "arrays (snd (retrieve q s)) ! length (arrays s)
     = array_sort by_similarity (map (score q) (vectorStore s))"
  by (simp add: retrieve_def vectorStore_map_def sort_in_place_def slice_new_def deref_def
        nth_append)

subsection \<open>Scores that are numbers\<close>

text \<open>
  When no score is \<open>NaN\<close>, the comparator \<open>b.similarity - a.similarity\<close> is the
  difference of the scores, and the sort orders by them and is stable.
\<close>

fun number_of :: "num \<Rightarrow> real" where
  "number_of (Num r) = r"
| "number_of NaN = 0"

lemma agrees_by_similarity:
  assumes "\<forall>d\<in>S. similarity d \<noteq> NaN"
  shows "agrees by_similarity (\<lambda>d. number_of (similarity d)) S"
  unfolding agrees_def
proof (intro ballI)
  fix x y assume "x \<in> S" "y \<in> S"
  with assms obtain a b where "similarity x = Num a" "similarity y = Num b"
    by (cases "similarity x"; cases "similarity y") auto
  then show "sortCompare by_similarity x y
               = number_of (similarity y) - number_of (similarity x)"
    by (simp add: sortCompare_def by_similarity_def)
qed

lemma descending_iff:
  assumes "\<forall>d\<in>set docs. similarity d \<noteq> NaN"
  shows "descending docs \<longleftrightarrow> desc (\<lambda>d. number_of (similarity d)) docs"
proof -
  have "jsge (similarity a) (similarity b)
          \<longleftrightarrow> number_of (similarity b) \<le> number_of (similarity a)"
    if "a \<in> set docs" "b \<in> set docs" for a b
  proof -
    from assms that obtain x y where "similarity a = Num x" "similarity b = Num y"
      by (cases "similarity a"; cases "similarity b") auto
    then show ?thesis by simp
  qed
  then show ?thesis
    by (auto elim!: sorted_wrt_mono_rel [rotated])
qed

lemma array_sort_descending:
  assumes "\<forall>d\<in>set xs. similarity d \<noteq> NaN"
  shows "descending (array_sort by_similarity xs)"
proof -
  from array_sort_stable [OF agrees_by_similarity [OF assms]]
  have "desc (\<lambda>d. number_of (similarity d)) (array_sort by_similarity xs)" by blast
  moreover from assms have "\<forall>d\<in>set (array_sort by_similarity xs). similarity d \<noteq> NaN"
    by simp
  ultimately show ?thesis by (simp add: descending_iff)
qed

lemma filter_array_sort:
  assumes "\<forall>d\<in>set xs. similarity d \<noteq> NaN"
  shows "filter (\<lambda>d. similarity d = v) (array_sort by_similarity xs)
           = filter (\<lambda>d. similarity d = v) xs"
proof (cases v)
  case (Num r)
  have same: "filter (\<lambda>d. similarity d = Num r) ys
                = filter (\<lambda>d. number_of (similarity d) = r) ys"
    if "\<forall>d\<in>set ys. similarity d \<noteq> NaN" for ys
  proof (rule filter_cong [OF refl])
    fix d assume "d \<in> set ys"
    with that obtain x where "similarity d = Num x" by (cases "similarity d") auto
    then show "(similarity d = Num r) = (number_of (similarity d) = r)" by simp
  qed
  from assms have sorted: "\<forall>d\<in>set (array_sort by_similarity xs). similarity d \<noteq> NaN"
    by simp
  from array_sort_stable [OF agrees_by_similarity [OF assms], of r]
  have "filter (\<lambda>d. number_of (similarity d) = r) (array_sort by_similarity xs)
          = filter (\<lambda>d. number_of (similarity d) = r) xs"
    by blast
  with same [OF assms] same [OF sorted] Num show ?thesis by simp
next
  case NaN
  from assms have "\<forall>d\<in>set (array_sort by_similarity xs). similarity d \<noteq> NaN" by simp
  with assms NaN show ?thesis by (simp add: filter_empty_conv)
qed

lemma prefix_filter_take: "prefix (filter P (take n xs)) (filter P xs)"
proof -
  have "filter P xs = filter P (take n xs) @ filter P (drop n xs)"
    by (simp flip: filter_append)
  then show ?thesis by (simp add: prefix_def)
qed

text \<open>
  A list of two or more matches with a \<open>NaN\<close> score is not in descending order, however
  it is arranged: no comparison with \<open>NaN\<close> holds.
\<close>

lemma jsge_NaN [simp]: "\<not> jsge NaN b" "\<not> jsge a NaN"
  by (cases b; simp) (cases a; simp)

lemma descending_no_NaN:
  assumes "descending docs" and "2 \<le> length docs" and "d \<in> set docs"
  shows "similarity d \<noteq> NaN"
proof
  assume nan: "similarity d = NaN"
  from assms(3) obtain i where i: "i < length docs" "docs ! i = d"
    by (auto simp: in_set_conv_nth)
  from assms(2) i(1) obtain j where j: "j < length docs" "j \<noteq> i"
    by (cases "i = 0") (auto intro: that [of 1] that [of 0])
  from assms(1) have all: "\<And>a b. a < b \<Longrightarrow> b < length docs \<Longrightarrow>
      jsge (similarity (docs ! a)) (similarity (docs ! b))"
    by (simp add: sorted_wrt_iff_nth_less)
  from j i consider "i < j" | "j < i" by linarith
  then show False
  proof cases
    case 1
    from all [OF 1 j(1)] i(2) nan show False by simp
  next
    case 2
    from all [OF 2 i(1)] i(2) nan show False by simp
  qed
qed

subsection \<open>Example stores\<close>

definition entry :: "string \<Rightarrow> real list \<Rightarrow> vector" where
  "entry i e = \<lparr>id_vector = i, embedding = e, text_vector = ''chunk '' @ i, documentId = ''doc''\<rparr>"

definition scored_entry :: "string \<Rightarrow> real list \<Rightarrow> num \<Rightarrow> scored" where
  "scored_entry i e s = spread_similarity (entry i e) s"

text \<open>Seven entries of two components each; against \<open>[1, 0]\<close> no score is \<open>NaN\<close>.\<close>

definition store7 :: state where
  "store7 =
     \<lparr>vectorStore =
        [entry ''1'' [1, 0], entry ''2'' [0, 1], entry ''3'' [- 1, 0], entry ''4'' [0, - 1],
         entry ''5'' [1, 0], entry ''6'' [0, 0], entry ''7'' [0, 1]],
      arrays = []\<rparr>"

text \<open>
  A store whose second entry has a shorter embedding than the query \<open>[1, 0]\<close>: its score
  is \<open>NaN\<close>.
\<close>

definition store3 :: state where
  "store3 =
     \<lparr>vectorStore = [entry ''1'' [0, 1], entry ''2'' [1], entry ''3'' [1, 0]], arrays = []\<rparr>"

text \<open>
  A store with two such entries, and with three entries of score \<open>1\<close> against
  \<open>[1, 0]\<close>: the second, the sixth and the seventh.
\<close>

definition store_tied :: state where
  "store_tied =
     \<lparr>vectorStore =
        [entry ''1'' [0, 1], entry ''2'' [1, 0], entry ''3'' [1], entry ''4'' [0, 1],
         entry ''5'' [1], entry ''6'' [1, 0], entry ''7'' [1, 0]],
      arrays = []\<rparr>"

lemma embedding_entry [simp]: "embedding (entry i e) = e"
  by (simp add: entry_def)

lemma scores_store7:
  "map (score [1, 0]) (vectorStore store7) =
     [scored_entry ''1'' [1, 0] (Num 1), scored_entry ''2'' [0, 1] (Num 0),
      scored_entry ''3'' [- 1, 0] (Num (- 1)), scored_entry ''4'' [0, - 1] (Num 0),
      scored_entry ''5'' [1, 0] (Num 1), scored_entry ''6'' [0, 0] (Num 0),
      scored_entry ''7'' [0, 1] (Num 0)]"
  by (simp add: store7_def score_def scored_entry_def cosineSimilarity_examples)

lemma scores_store3:
  "map (score [1, 0]) (vectorStore store3) =
     [scored_entry ''1'' [0, 1] (Num 0), scored_entry ''2'' [1] NaN,
      scored_entry ''3'' [1, 0] (Num 1)]"
  by (simp add: store3_def score_def scored_entry_def cosineSimilarity_examples)

lemma scores_store_tied:
  "map (score [1, 0]) (vectorStore store_tied) =
     [scored_entry ''1'' [0, 1] (Num 0), scored_entry ''2'' [1, 0] (Num 1),
      scored_entry ''3'' [1] NaN, scored_entry ''4'' [0, 1] (Num 0),
      scored_entry ''5'' [1] NaN, scored_entry ''6'' [1, 0] (Num 1),
      scored_entry ''7'' [1, 0] (Num 1)]"
  by (simp add: store_tied_def score_def scored_entry_def cosineSimilarity_examples)

text \<open>The sort on these arrays, run step by step.\<close>

lemma sort_store7:
  "array_sort by_similarity
     [scored_entry ''1'' [1, 0] (Num 1), scored_entry ''2'' [0, 1] (Num 0),
      scored_entry ''3'' [- 1, 0] (Num (- 1)), scored_entry ''4'' [0, - 1] (Num 0),
      scored_entry ''5'' [1, 0] (Num 1), scored_entry ''6'' [0, 0] (Num 0),
      scored_entry ''7'' [0, 1] (Num 0)] =
     [scored_entry ''1'' [1, 0] (Num 1), scored_entry ''5'' [1, 0] (Num 1),
      scored_entry ''2'' [0, 1] (Num 0), scored_entry ''4'' [0, - 1] (Num 0),
      scored_entry ''6'' [0, 0] (Num 0), scored_entry ''7'' [0, 1] (Num 0),
      scored_entry ''3'' [- 1, 0] (Num (- 1))]"
  by code_simp

lemma sort_store3:
  "array_sort by_similarity
     [scored_entry ''1'' [0, 1] (Num 0), scored_entry ''2'' [1] NaN,
      scored_entry ''3'' [1, 0] (Num 1)] =
     [scored_entry ''1'' [0, 1] (Num 0), scored_entry ''2'' [1] NaN,
      scored_entry ''3'' [1, 0] (Num 1)]"
  by code_simp

lemma sort_store_tied:
  "array_sort by_similarity
     [scored_entry ''1'' [0, 1] (Num 0), scored_entry ''2'' [1, 0] (Num 1),
      scored_entry ''3'' [1] NaN, scored_entry ''4'' [0, 1] (Num 0),
      scored_entry ''5'' [1] NaN, scored_entry ''6'' [1, 0] (Num 1),
      scored_entry ''7'' [1, 0] (Num 1)] =
     [scored_entry ''2'' [1, 0] (Num 1), scored_entry ''7'' [1, 0] (Num 1),
      scored_entry ''1'' [0, 1] (Num 0), scored_entry ''3'' [1] NaN,
      scored_entry ''4'' [0, 1] (Num 0), scored_entry ''5'' [1] NaN,
      scored_entry ''6'' [1, 0] (Num 1)]"
  by code_simp

lemma scored_entry_fields [simp]:
  "id_vector (scored_entry i e s) = i" "similarity (scored_entry i e s) = s"
  by (simp_all add: scored_entry_def spread_similarity_def entry_def)

lemma retrieve_store7:
  "fst (retrieve [1, 0] store7) =
     [scored_entry ''1'' [1, 0] (Num 1), scored_entry ''5'' [1, 0] (Num 1),
      scored_entry ''2'' [0, 1] (Num 0), scored_entry ''4'' [0, - 1] (Num 0),
      scored_entry ''6'' [0, 0] (Num 0)]"
  by (simp only: retrieve_value scores_store7 sort_store7) simp

lemma retrieve_store3:
  "fst (retrieve [1, 0] store3) =
     [scored_entry ''1'' [0, 1] (Num 0), scored_entry ''2'' [1] NaN,
      scored_entry ''3'' [1, 0] (Num 1)]"
  by (simp only: retrieve_value scores_store3 sort_store3) simp

lemma retrieve_store_tied:
  "fst (retrieve [1, 0] store_tied) =
     [scored_entry ''2'' [1, 0] (Num 1), scored_entry ''7'' [1, 0] (Num 1),
      scored_entry ''1'' [0, 1] (Num 0), scored_entry ''3'' [1] NaN,
      scored_entry ''4'' [0, 1] (Num 0)]"
  by (simp only: retrieve_value scores_store_tied sort_store_tied) simp

subsection \<open>Top five\<close>

text \<open>
  C2, as the code has it. For every query embedding and every state of the store, the
  retrieval step returns at most 5 matches, and every returned match is the scored copy
  of an entry of the store. The matches are in descending order of score whenever no
  score is \<open>NaN\<close>. This holds however the scores are computed.
\<close>

theorem retrieve_top5:
  "length (fst (retrieve_with similarityOf q s)) \<le> 5
   \<and> set (fst (retrieve_with similarityOf q s)) \<subseteq> score_with similarityOf q ` set (vectorStore s)
   \<and> ((\<forall>v\<in>set (vectorStore s). similarityOf q (embedding v) \<noteq> NaN)
        \<longrightarrow> descending (fst (retrieve_with similarityOf q s)))"
proof (intro conjI impI)
  let ?mapped = "map (score_with similarityOf q) (vectorStore s)"
  show "length (fst (retrieve_with similarityOf q s)) \<le> 5"
    by (simp add: retrieve_with_value)
  have "set (take 5 (array_sort by_similarity ?mapped)) \<subseteq> set (array_sort by_similarity ?mapped)"
    by (rule set_take_subset)
  then show "set (fst (retrieve_with similarityOf q s))
               \<subseteq> score_with similarityOf q ` set (vectorStore s)"
    by (simp add: retrieve_with_value)
  assume "\<forall>v\<in>set (vectorStore s). similarityOf q (embedding v) \<noteq> NaN"
  then have "\<forall>d\<in>set ?mapped. similarity d \<noteq> NaN"
    by (simp add: score_with_def spread_similarity_def)
  then have "descending (array_sort by_similarity ?mapped)"
    by (rule array_sort_descending)
  then show "descending (fst (retrieve_with similarityOf q s))"
    by (simp add: retrieve_with_value sorted_wrt_take)
qed

theorem retrieve_top5_witness:
  "length (vectorStore store7) = 7
   \<and> length (fst (retrieve [1, 0] store7)) \<le> 5
   \<and> set (fst (retrieve [1, 0] store7)) \<subseteq> score [1, 0] ` set (vectorStore store7)
   \<and> descending (fst (retrieve [1, 0] store7))
   \<and> map similarity (fst (retrieve [1, 0] store7)) = [Num 1, Num 1, Num 0, Num 0, Num 0]"
proof -
  have scores: "\<forall>v\<in>set (vectorStore store7). cosineSimilarity [1, 0] (embedding v) \<noteq> NaN"
    by (simp add: store7_def entry_def cosineSimilarity_examples)
  have size: "length (vectorStore store7) = 7" by (simp add: store7_def)
  have returned: "map similarity (fst (retrieve [1, 0] store7))
                    = [Num 1, Num 1, Num 0, Num 0, Num 0]"
    by (simp add: retrieve_store7)
  have same: "score_with cosineSimilarity [1, 0] = score [1, 0]"
    by (rule ext) (rule score_with_cosineSimilarity)
  from retrieve_top5 [of cosineSimilarity "[1, 0]" store7] scores size returned show ?thesis
    unfolding retrieve_with_cosineSimilarity same by blast
qed

text \<open>
  C2 as stated fails at the store \<open>store3\<close> and the query \<open>[1, 0]\<close>: the scores are
  \<open>0\<close>, \<open>NaN\<close> and \<open>1\<close>, every comparison with the \<open>NaN\<close> score gives \<open>NaN\<close>, so the
  sort leaves the three matches where they are and the match of score \<open>0\<close> is returned
  before the match of score \<open>1\<close>. (By lemma \<open>descending_no_NaN\<close> no arrangement of these
  three matches is descending.)
\<close>

theorem retrieve_descending_counterexample:
  "map similarity (fst (retrieve [1, 0] store3)) = [Num 0, NaN, Num 1]
   \<and> \<not> descending (fst (retrieve [1, 0] store3))"
  by (simp add: retrieve_store3)

subsection \<open>Stability\<close>

text \<open>
  C8, as the code has it. The top-k selection is stable whenever no score is \<open>NaN\<close>: for
  every score \<open>x\<close>, the returned matches of score \<open>x\<close> are then, in the order returned,
  an initial part of the store's entries of score \<open>x\<close> in insertion order. So tied
  entries come back in their insertion order, and the ones cut off by the limit are the
  later ones. This holds however the scores are computed.
\<close>

theorem retrieve_stable:
  assumes "\<forall>v\<in>set (vectorStore s). similarityOf q (embedding v) \<noteq> NaN"
  shows "prefix (filter (\<lambda>d. similarity d = x) (fst (retrieve_with similarityOf q s)))
                (filter (\<lambda>d. similarity d = x)
                   (map (score_with similarityOf q) (vectorStore s)))"
proof -
  let ?mapped = "map (score_with similarityOf q) (vectorStore s)"
  from assms have "\<forall>d\<in>set ?mapped. similarity d \<noteq> NaN"
    by (simp add: score_with_def spread_similarity_def)
  then have "filter (\<lambda>d. similarity d = x) (array_sort by_similarity ?mapped)
               = filter (\<lambda>d. similarity d = x) ?mapped"
    by (rule filter_array_sort)
  with prefix_filter_take [of "\<lambda>d. similarity d = x" 5 "array_sort by_similarity ?mapped"]
  show ?thesis by (simp add: retrieve_with_value)
qed

theorem retrieve_stable_witness:
  "map id_vector (filter (\<lambda>d. similarity d = Num 0) (map (score [1, 0]) (vectorStore store7)))
     = [''2'', ''4'', ''6'', ''7'']
   \<and> map id_vector (filter (\<lambda>d. similarity d = Num 0) (fst (retrieve [1, 0] store7)))
     = [''2'', ''4'', ''6'']
   \<and> prefix (filter (\<lambda>d. similarity d = Num 0) (fst (retrieve [1, 0] store7)))
            (filter (\<lambda>d. similarity d = Num 0) (map (score [1, 0]) (vectorStore store7)))"
proof -
  have scores: "\<forall>v\<in>set (vectorStore store7). cosineSimilarity [1, 0] (embedding v) \<noteq> NaN"
    by (simp add: store7_def entry_def cosineSimilarity_examples)
  have stored: "map id_vector (filter (\<lambda>d. similarity d = Num 0)
                   (map (score [1, 0]) (vectorStore store7))) = [''2'', ''4'', ''6'', ''7'']"
    by (simp add: scores_store7)
  have returned: "map id_vector (filter (\<lambda>d. similarity d = Num 0)
                     (fst (retrieve [1, 0] store7))) = [''2'', ''4'', ''6'']"
    by (simp add: retrieve_store7)
  have same: "score_with cosineSimilarity [1, 0] = score [1, 0]"
    by (rule ext) (rule score_with_cosineSimilarity)
  from stored returned
    retrieve_stable [of store7 cosineSimilarity "[1, 0]" "Num 0", OF scores] show ?thesis
    unfolding retrieve_with_cosineSimilarity same by (intro conjI)
qed

text \<open>
  C8 as stated fails at the store \<open>store_tied\<close> and the query \<open>[1, 0]\<close>. The entries
  \<open>2\<close>, \<open>6\<close> and \<open>7\<close> are tied at the highest score \<open>1\<close>, and the entries \<open>3\<close>
  and \<open>5\<close> have the score \<open>NaN\<close>. The sort moves entry \<open>7\<close> up to entry \<open>2\<close> and
  leaves entry \<open>6\<close> behind the \<open>NaN\<close> entries: in the sorted array the tied entries
  \<open>6\<close> and \<open>7\<close> have changed places. So the tie for the second place goes to the
  later entry, against insertion order, and the earlier entry \<open>6\<close> is not among the
  five returned, although two entries of score \<open>0\<close> are.
\<close>

theorem retrieve_stable_counterexample:
  "map id_vector (arrays (snd (retrieve [1, 0] store_tied)) ! 0)
     = [''2'', ''7'', ''1'', ''3'', ''4'', ''5'', ''6'']
   \<and> map id_vector (fst (retrieve [1, 0] store_tied)) = [''2'', ''7'', ''1'', ''3'', ''4'']
   \<and> map id_vector (filter (\<lambda>d. similarity d = Num 1)
        (map (score [1, 0]) (vectorStore store_tied))) = [''2'', ''6'', ''7'']
   \<and> map id_vector (filter (\<lambda>d. similarity d = Num 1) (fst (retrieve [1, 0] store_tied)))
        = [''2'', ''7'']
   \<and> \<not> prefix (filter (\<lambda>d. similarity d = Num 1) (fst (retrieve [1, 0] store_tied)))
              (filter (\<lambda>d. similarity d = Num 1)
                 (map (score [1, 0]) (vectorStore store_tied)))"
proof -
  have sorted_array: "map id_vector (arrays (snd (retrieve [1, 0] store_tied)) ! 0)
                        = [''2'', ''7'', ''1'', ''3'', ''4'', ''5'', ''6'']"
  proof -
    have "length (arrays store_tied) = 0" by (simp add: store_tied_def)
    with retrieve_sorts_mapped_array [of "[1, 0]" store_tied]
    have "arrays (snd (retrieve [1, 0] store_tied)) ! 0
            = array_sort by_similarity (map (score [1, 0]) (vectorStore store_tied))"
      by simp
    then show ?thesis by (simp add: scores_store_tied sort_store_tied)
  qed
  have returned: "map id_vector (fst (retrieve [1, 0] store_tied))
                    = [''2'', ''7'', ''1'', ''3'', ''4'']"
    by (simp add: retrieve_store_tied)
  have stored1: "map id_vector (filter (\<lambda>d. similarity d = Num 1)
        (map (score [1, 0]) (vectorStore store_tied))) = [''2'', ''6'', ''7'']"
    by (simp add: scores_store_tied)
  have returned1: "map id_vector (filter (\<lambda>d. similarity d = Num 1)
        (fst (retrieve [1, 0] store_tied))) = [''2'', ''7'']"
    by (simp add: retrieve_store_tied)
  have "\<not> prefix (filter (\<lambda>d. similarity d = Num 1) (fst (retrieve [1, 0] store_tied)))
              (filter (\<lambda>d. similarity d = Num 1)
                 (map (score [1, 0]) (vectorStore store_tied)))"
  proof
    assume "prefix (filter (\<lambda>d. similarity d = Num 1) (fst (retrieve [1, 0] store_tied)))
              (filter (\<lambda>d. similarity d = Num 1)
                 (map (score [1, 0]) (vectorStore store_tied)))"
    then have "prefix
        (map id_vector (filter (\<lambda>d. similarity d = Num 1) (fst (retrieve [1, 0] store_tied))))
        (map id_vector (filter (\<lambda>d. similarity d = Num 1)
           (map (score [1, 0]) (vectorStore store_tied))))"
      by (rule map_mono_prefix)
    then show False unfolding stored1 returned1 by simp
  qed
  with sorted_array returned stored1 returned1 show ?thesis by (intro conjI)
qed

section \<open>The external services\<close>

text \<open>
  The embedding model, the generative model, the managed vector index, the weather API
  and the Zoom API are remote services. Each is a parameter of the model: a function
  from the request to either the error the awaited call rejects with or the value it
  resolves to. A function also receives the number of external calls made before it, so
  that a service may answer the same request differently at different times. The calls
  made are recorded, in order, in a trace.

  The generation configuration and the safety settings are constants passed along
  unchanged on every generation call; a request keeps what differs between the calls:
  the conversation or prompt, whether the system instruction is sent, and the tools
  declared.
\<close>

datatype error = TypeError | Rejected string

datatype json =
    JNull
  | JBool bool
  | JNumber real
  | JString string
  | JArray "json list"
  | JObject "(string \<times> json) list"

datatype jsvalue = Undefined | Value json

record functionDeclaration =
  name_declaration :: string
  description :: string

record functionCall =
  name :: string
  args :: jsvalue

datatype part = Text string | FunctionResponse string jsvalue

record content =
  role :: "string option"
  parts :: "part list"

datatype contents = Prompt string | Conversation "content list"

record request =
  model :: string
  contents :: contents
  systemInstruction :: bool
  tools :: "functionDeclaration list"

record response =
  text_response :: "string option"
  functionCalls :: "functionCall list option"

datatype taskType = RETRIEVAL_DOCUMENT | RETRIEVAL_QUERY

record embedRequest =
  model_embed :: string
  text_embed :: string
  taskType :: taskType
  outputDimensionality :: "nat option"

record queryRequest =
  vector_query :: "real list"
  topK :: nat
  includeMetadata :: bool

datatype call =
    EmbedContent embedRequest
  | GenerateContent request
  | IndexQuery queryRequest
  | FetchWeather jsvalue
  | FetchZoomToken
  | FetchZoomMeeting jsvalue jsvalue jsvalue jsvalue

text \<open>
  \<open>genAI_embedContent\<close> stands for the call and the reading of
  \<open>result.embeddings[0].values\<close>; \<open>index_query\<close> for the query of the index and the
  reading of each match's \<open>metadata?.text\<close> (\<open>None\<close> where it is missing);
  \<open>fetch_weather\<close> and \<open>fetch_zoom_meeting\<close> for the request and the parsing of the
  JSON body, with the location, respectively the access token, topic, invitees and start
  time, that the request is built from.
\<close>

record world =
  genAI_embedContent :: "nat \<Rightarrow> embedRequest \<Rightarrow> error + real list"
  genAI_generateContent :: "nat \<Rightarrow> request \<Rightarrow> error + response"
  index_query :: "nat \<Rightarrow> queryRequest \<Rightarrow> error + string option list option"
  fetch_weather :: "nat \<Rightarrow> jsvalue \<Rightarrow> error + json"
  fetch_zoom_token :: "nat \<Rightarrow> error + json"
  fetch_zoom_meeting :: "nat \<Rightarrow> jsvalue \<Rightarrow> jsvalue \<Rightarrow> jsvalue \<Rightarrow> jsvalue \<Rightarrow> error + json"

text \<open>\<^verbatim>\<open>Array.prototype.join(separator)\<close> on an array of strings.\<close>

fun join :: "string list \<Rightarrow> string \<Rightarrow> string" where
  "join [] separator = []"
| "join [x] separator = x"
| "join (x # y # ys) separator = x @ separator @ join (y # ys) separator"

text \<open>The prompt of \<open>handleChat\<close>, a template literal over the context and the query.\<close>

definition prompt_template :: "string \<Rightarrow> string \<Rightarrow> string" where
  "prompt_template context query =
     ''\<newline>        Based on the following context, please answer the user's question.''
   @ ''\<newline>        If the context does not contain the answer, say that you don't have enough information.''
   @ ''\<newline>\<newline>        CONTEXT:\<newline>        '' @ context
   @ ''\<newline>\<newline>        QUESTION:\<newline>        '' @ query
   @ ''\<newline>    ''"

section \<open>Chat over the in-process store\<close>

text \<open>
  \<open>handleChat\<close> of the services module with the in-process store: embed the query,
  retrieve, assemble the prompt, generate, return the response's text. A rejected call
  propagates to the caller. The function runs from call to return without another
  request in between.
\<close>

definition handleChat ::
  "world \<Rightarrow> string \<Rightarrow> content list \<Rightarrow> state \<Rightarrow> call list
     \<Rightarrow> (error + string option) \<times> state \<times> call list" where
  "handleChat w query history s tr =
     (let embed = \<lparr>model_embed = ''gemini-embedding-001'', text_embed = query,
                   taskType = RETRIEVAL_QUERY, outputDimensionality = None\<rparr>;
          tr1 = tr @ [EmbedContent embed]
      in case genAI_embedContent w (length tr) embed of
           Inl e \<Rightarrow> (Inl e, s, tr1)
         | Inr queryEmbedding \<Rightarrow>
             (let (similarDocs, s1) = retrieve queryEmbedding s;
                  context = join (map text_vector similarDocs) ''\<newline>\<newline>---\<newline>\<newline>'';
                  prompt = prompt_template context query;
                  generate = \<lparr>model = ''gemini-2.5-flash'', contents = Prompt prompt,
                              systemInstruction = False, tools = []\<rparr>;
                  tr2 = tr1 @ [GenerateContent generate]
              in case genAI_generateContent w (length tr1) generate of
                   Inl e \<Rightarrow> (Inl e, s1, tr2)
                 | Inr chatModel \<Rightarrow> (Inr (text_response chatModel), s1, tr2)))"

text \<open>
  C9. \<open>handleChat\<close> never mutates the vector store: whatever the services answer, the
  store's entry sequence after the call is the one before it. (The in-place sort works
  on the array that \<open>map\<close> created.)
\<close>

theorem handleChat_store_unchanged:
  "vectorStore (fst (snd (handleChat w query history s tr))) = vectorStore s"
proof -
  have "vectorStore s1 = vectorStore s" if "retrieve q s = (docs, s1)" for q docs s1
    using retrieve_frame [of q s] that by simp
  then show ?thesis
    by (auto simp: handleChat_def Let_def split: sum.splits prod.splits)
qed

section \<open>Zoom token\<close>

text \<open>
  Reading a property of a value, as in \<open>funcArgs.location\<close> or in the destructuring
  \<^verbatim>\<open>const { access_token, expires_in } = await request\<close>: a \<open>TypeError\<close> on
  \<open>undefined\<close> and \<open>null\<close>, the property's value on an object that has it, and
  \<open>undefined\<close> otherwise (none of the keys the code reads is a built-in property of a
  string, a number or an array).
\<close>

definition property :: "(string \<times> json) list \<Rightarrow> string \<Rightarrow> jsvalue" where
  "property properties key =
     (case map_of properties key of None \<Rightarrow> Undefined | Some v \<Rightarrow> Value v)"

fun get_prop :: "jsvalue \<Rightarrow> string \<Rightarrow> error + jsvalue" where
  "get_prop Undefined key = Inl TypeError"
| "get_prop (Value JNull) key = Inl TypeError"
| "get_prop (Value (JObject properties)) key = Inr (property properties key)"
| "get_prop (Value _) key = Inr Undefined"

text \<open>
  \<^verbatim>\<open>export const getToken = async () => {
  try {
    ...
    const request = await fetch(...).then(response => response.json())
    .catch(error => console.log(error));

    const { access_token, expires_in } = await request;

    return { access_token, expires_in, error: null };
  } catch (error) {
    return { access_token: null, expires_in: null, error };
  }
};\<close>

  A rejected fetch is logged and resolves to \<open>undefined\<close>; destructuring it raises the
  \<open>TypeError\<close> that the \<open>catch\<close> block returns in the \<open>error\<close> field. \<open>getToken\<close>
  itself never throws.
\<close>

record token =
  access_token :: jsvalue
  expires_in :: jsvalue
  error_token :: "error option"

definition getToken :: "world \<Rightarrow> call list \<Rightarrow> token \<times> call list" where
  "getToken w tr =
     (let request = (case fetch_zoom_token w (length tr) of
                       Inl error \<Rightarrow> Undefined
                     | Inr body \<Rightarrow> Value body);
          tr1 = tr @ [FetchZoomToken]
      in case get_prop request ''access_token'' of
           Inl error \<Rightarrow>
             (\<lparr>access_token = Value JNull, expires_in = Value JNull,
               error_token = Some error\<rparr>, tr1)
         | Inr accessToken \<Rightarrow>
             (case get_prop request ''expires_in'' of
                Inl error \<Rightarrow>
                  (\<lparr>access_token = Value JNull, expires_in = Value JNull,
                    error_token = Some error\<rparr>, tr1)
              | Inr expiresIn \<Rightarrow>
                  (\<lparr>access_token = accessToken, expires_in = expiresIn,
                    error_token = None\<rparr>, tr1)))"

lemma getToken_failure:
  "fetch_zoom_token w (length tr) = Inl e \<Longrightarrow>
   getToken w tr =
     (\<lparr>access_token = Value JNull, expires_in = Value JNull, error_token = Some TypeError\<rparr>,
      tr @ [FetchZoomToken])"
  by (simp add: getToken_def)

section \<open>Tool dispatcher\<close>

text \<open>
  The services module that queries the managed index declares three tools to the model
  and dispatches the calls the model requests.
\<close>

definition weatherFunctionDeclaration :: functionDeclaration where
  "weatherFunctionDeclaration =
     \<lparr>name_declaration = ''get_current_temperature'',
      description = ''Gets the current temperature for a given location.''\<rparr>"

definition zoomFunctionDeclaration :: functionDeclaration where
  "zoomFunctionDeclaration =
     \<lparr>name_declaration = ''create_zoom_meeting'', description = ''Create a zoom meeting.''\<rparr>"

definition ragFunctionDeclaration :: functionDeclaration where
  "ragFunctionDeclaration =
     \<lparr>name_declaration = ''rag_intro_llm_prompt_engineering'',
      description = ''If the user's queries are all about llm prompt engineering.''\<rparr>"

text \<open>
  \<open>handleChat\<close> of this module asks the managed index for the five nearest matches
  instead of scanning a store of its own:
  \<^verbatim>\<open>const similarDocs = queryResponse.matches?.map(match => match.metadata?.text)
                                          .filter(Boolean) || [];\<close>
  \<open>filter(Boolean)\<close> drops the missing texts and the empty ones.
\<close>

definition truthy :: "string option \<Rightarrow> bool" where
  "truthy t = (case t of None \<Rightarrow> False | Some str \<Rightarrow> str \<noteq> [])"

definition handleChat_index ::
  "world \<Rightarrow> string \<Rightarrow> content list \<Rightarrow> call list \<Rightarrow> (error + string option) \<times> call list" where
  "handleChat_index w query history tr =
     (let embed = \<lparr>model_embed = ''gemini-embedding-001'', text_embed = query,
                   taskType = RETRIEVAL_QUERY, outputDimensionality = Some 1024\<rparr>;
          tr1 = tr @ [EmbedContent embed]
      in case genAI_embedContent w (length tr) embed of
           Inl e \<Rightarrow> (Inl e, tr1)
         | Inr queryEmbedding \<Rightarrow>
             (let search = \<lparr>vector_query = queryEmbedding, topK = 5, includeMetadata = True\<rparr>;
                  tr2 = tr1 @ [IndexQuery search]
              in case index_query w (length tr1) search of
                   Inl e \<Rightarrow> (Inl e, tr2)
                 | Inr matches \<Rightarrow>
                     (let similarDocs = (case matches of
                                           None \<Rightarrow> []
                                         | Some ms \<Rightarrow> map the (filter truthy ms));
                          context = join similarDocs ''\<newline>\<newline>---\<newline>\<newline>'';
                          prompt = prompt_template context query;
                          generate = \<lparr>model = ''gemini-2.5-flash'', contents = Prompt prompt,
                                      systemInstruction = False, tools = []\<rparr>;
                          tr3 = tr2 @ [GenerateContent generate]
                      in case genAI_generateContent w (length tr2) generate of
                           Inl e \<Rightarrow> (Inl e, tr3)
                         | Inr chatModel \<Rightarrow> (Inr (text_response chatModel), tr3))))"

text \<open>The text a generation call returns, as the \<open>result\<close> of a tool response.\<close>

definition text_value :: "string option \<Rightarrow> jsvalue" where
  "text_value t = (case t of None \<Rightarrow> Undefined | Some str \<Rightarrow> Value (JString str))"

text \<open>
  The dispatch loop of \<open>handleGenerate\<close>,
  \<^verbatim>\<open>for (const functionCall of chatModel.functionCalls) { ... }\<close>, with the results
  pushed so far and the trace. The loop has no \<open>try\<close>: a rejected fetch, a rejected
  \<open>handleChat\<close> and the \<open>TypeError\<close> of reading a property of missing arguments leave
  the loop and \<open>handleGenerate\<close>. A call whose name is none of the three compared with
  takes no branch: nothing is pushed for it.
\<close>

fun dispatch ::
  "world \<Rightarrow> string \<Rightarrow> content list \<Rightarrow> functionCall list \<Rightarrow> part list \<Rightarrow> call list
     \<Rightarrow> (error + part list) \<times> call list" where
  "dispatch w query history [] results tr = (Inr results, tr)"
| "dispatch w query history (functionCall # rest) results tr =
     (let funcArgs = args functionCall in
      if name functionCall = ''get_current_temperature'' then
        (case get_prop funcArgs ''location'' of
           Inl e \<Rightarrow> (Inl e, tr)
         | Inr location \<Rightarrow>
             (case fetch_weather w (length tr) location of
                Inl e \<Rightarrow> (Inl e, tr @ [FetchWeather location])
              | Inr res \<Rightarrow>
                  dispatch w query history rest
                    (results @ [FunctionResponse (name functionCall) (Value res)])
                    (tr @ [FetchWeather location])))
      else if name functionCall = ''create_zoom_meeting'' then
        (case getToken w tr of (token, tr1) \<Rightarrow>
           (case get_prop funcArgs ''topic'' of
              Inl e \<Rightarrow> (Inl e, tr1)
            | Inr topic \<Rightarrow>
           (case get_prop funcArgs ''meeting_invitees'' of
              Inl e \<Rightarrow> (Inl e, tr1)
            | Inr meeting_invitees \<Rightarrow>
           (case get_prop funcArgs ''start_time'' of
              Inl e \<Rightarrow> (Inl e, tr1)
            | Inr start_time \<Rightarrow>
                (let post = FetchZoomMeeting (access_token token) topic meeting_invitees
                              start_time
                 in case fetch_zoom_meeting w (length tr1) (access_token token) topic
                           meeting_invitees start_time of
                      Inl e \<Rightarrow> (Inl e, tr1 @ [post])
                    | Inr res \<Rightarrow>
                        dispatch w query history rest
                          (results @ [FunctionResponse (name functionCall) (Value res)])
                          (tr1 @ [post]))))))
      else if name functionCall = ''rag_university_of_baguio_student_handbook'' then
        (case handleChat_index w query history tr of
           (Inl e, tr1) \<Rightarrow> (Inl e, tr1)
         | (Inr res, tr1) \<Rightarrow>
             dispatch w query history rest
               (results @ [FunctionResponse (name functionCall) (text_value res)]) tr1)
      else dispatch w query history rest results tr)"

definition userTurn :: "string \<Rightarrow> content" where
  "userTurn query = \<lparr>role = Some ''user'', parts = [Text query]\<rparr>"

definition initialRequest :: "string \<Rightarrow> content list \<Rightarrow> request" where
  "initialRequest query history =
     \<lparr>model = ''gemini-2.5-flash'',
      contents = Conversation (history @ [userTurn query]),
      systemInstruction = True,
      tools = [weatherFunctionDeclaration, zoomFunctionDeclaration, ragFunctionDeclaration]\<rparr>"

definition followUpRequest :: "string \<Rightarrow> content list \<Rightarrow> part list \<Rightarrow> request" where
  "followUpRequest query history results =
     \<lparr>model = ''gemini-2.5-flash'',
      contents = Conversation (history @ [userTurn query, \<lparr>role = None, parts = results\<rparr>]),
      systemInstruction = False,
      tools = []\<rparr>"

text \<open>
  \<open>handleGenerate\<close>: the initial generation call; if the response requests tools, the
  dispatch loop and one more generation call over the history, the user turn and a turn
  holding the results; the text of the last response received is returned.
\<close>

definition handleGenerate ::
  "world \<Rightarrow> string \<Rightarrow> content list \<Rightarrow> call list \<Rightarrow> (error + string option) \<times> call list" where
  "handleGenerate w query history tr =
     (let tr1 = tr @ [GenerateContent (initialRequest query history)]
      in case genAI_generateContent w (length tr) (initialRequest query history) of
           Inl e \<Rightarrow> (Inl e, tr1)
         | Inr chatModel \<Rightarrow>
             (case functionCalls chatModel of
                Some (functionCall # rest) \<Rightarrow>
                  (case dispatch w query history (functionCall # rest) [] tr1 of
                     (Inl e, tr2) \<Rightarrow> (Inl e, tr2)
                   | (Inr results, tr2) \<Rightarrow>
                       (let tr3 = tr2 @ [GenerateContent (followUpRequest query history results)]
                        in case genAI_generateContent w (length tr2)
                                  (followUpRequest query history results) of
                             Inl e \<Rightarrow> (Inl e, tr3)
                           | Inr functionRes \<Rightarrow> (Inr (text_response functionRes), tr3)))
              | _ \<Rightarrow> (Inr (text_response chatModel), tr1)))"

subsection \<open>Which calls get a result\<close>

definition handled :: "string set" where
  "handled = {''get_current_temperature'', ''create_zoom_meeting'',
              ''rag_university_of_baguio_student_handbook''}"

fun response_name :: "part \<Rightarrow> string" where
  "response_name (FunctionResponse n v) = n"
| "response_name (Text t) = []"

lemma dispatch_unhandled:
  "name functionCall \<notin> handled \<Longrightarrow>
   dispatch w query history (functionCall # rest) results tr =
   dispatch w query history rest results tr"
  by (simp add: handled_def)

lemma declared_rag_name_unhandled: "name_declaration ragFunctionDeclaration \<notin> handled"
  by (simp add: ragFunctionDeclaration_def handled_def)

text \<open>
  When the loop completes, it has pushed one result for each call with a handled name, in
  the order of the calls, and none for the others.
\<close>

lemma dispatch_results:
  "dispatch w query history calls results tr = (Inr out, tr') \<Longrightarrow>
   \<exists>new. out = results @ new
        \<and> map response_name new = filter (\<lambda>n. n \<in> handled) (map name calls)"
proof (induction calls arbitrary: results tr)
  case Nil
  then show ?case by simp
next
  case (Cons functionCall rest)
  consider (weather) "name functionCall = ''get_current_temperature''"
    | (zoom) "name functionCall = ''create_zoom_meeting''"
    | (rag) "name functionCall = ''rag_university_of_baguio_student_handbook''"
    | (other) "name functionCall \<notin> handled"
    by (auto simp: handled_def)
  then show ?case
  proof cases
    case weather
    with Cons.prems obtain res location where
      "dispatch w query history rest
         (results @ [FunctionResponse (name functionCall) (Value res)])
         (tr @ [FetchWeather location]) = (Inr out, tr')"
      by (auto split: sum.splits)
    from Cons.IH [OF this] weather show ?thesis by (auto simp: handled_def)
  next
    case zoom
    with Cons.prems obtain res tr1 where
      "dispatch w query history rest
         (results @ [FunctionResponse (name functionCall) (Value res)]) tr1 = (Inr out, tr')"
      by (auto simp: Let_def split: sum.splits prod.splits)
    from Cons.IH [OF this] zoom show ?thesis by (auto simp: handled_def)
  next
    case rag
    with Cons.prems obtain res tr1 where
      "dispatch w query history rest
         (results @ [FunctionResponse (name functionCall) (text_value res)]) tr1 = (Inr out, tr')"
      by (auto split: sum.splits prod.splits)
    from Cons.IH [OF this] rag show ?thesis by (auto simp: handled_def)
  next
    case other
    from Cons.prems have "dispatch w query history rest results tr = (Inr out, tr')"
      by (simp only: dispatch_unhandled [OF other])
    from Cons.IH [OF this] other show ?thesis by auto
  qed
qed

subsection \<open>Which calls the loop makes\<close>

text \<open>
  The generation calls over a conversation are the initial and the follow-up call of
  \<open>handleGenerate\<close>; the generation call inside \<open>handleChat\<close> sends a prompt.
\<close>

fun is_conversation :: "call \<Rightarrow> bool" where
  "is_conversation (GenerateContent r) =
     (case contents r of Conversation c \<Rightarrow> True | Prompt p \<Rightarrow> False)"
| "is_conversation _ = False"

lemma getToken_trace: "snd (getToken w tr) = tr @ [FetchZoomToken]"
  by (simp add: getToken_def Let_def split: sum.splits)

lemma handleChat_index_trace:
  "handleChat_index w query history tr = (r, tr') \<Longrightarrow>
   \<exists>new. tr' = tr @ new \<and> filter is_conversation new = []"
  by (auto simp: handleChat_index_def Let_def split: sum.splits)

text \<open>The loop only adds calls to the trace, and none of them is over a conversation.\<close>

lemma dispatch_trace:
  "dispatch w query history calls results tr = (r, tr') \<Longrightarrow>
   \<exists>new. tr' = tr @ new \<and> filter is_conversation new = []"
proof (induction calls arbitrary: results tr)
  case Nil
  then show ?case by simp
next
  case (Cons functionCall rest)
  have step: "\<exists>new. tr' = tr @ new \<and> filter is_conversation new = []"
    if "dispatch w query history rest results' (tr @ mid) = (r, tr')"
      and "filter is_conversation mid = []" for results' mid
  proof -
    from Cons.IH [OF that(1)] obtain new where
      "tr' = (tr @ mid) @ new" "filter is_conversation new = []"
      by blast
    with that(2) show ?thesis by (intro exI [of _ "mid @ new"]) simp
  qed
  consider (weather) "name functionCall = ''get_current_temperature''"
    | (zoom) "name functionCall = ''create_zoom_meeting''"
    | (rag) "name functionCall = ''rag_university_of_baguio_student_handbook''"
    | (other) "name functionCall \<notin> handled"
    by (auto simp: handled_def)
  then show ?case
  proof cases
    case weather
    with Cons.prems show ?thesis
      by (auto split: sum.splits intro: step [where mid = "[FetchWeather _]"])
  next
    case zoom
    obtain token where "getToken w tr = (token, tr @ [FetchZoomToken])"
      using getToken_trace [of w tr] by (cases "getToken w tr") simp
    with zoom Cons.prems show ?thesis
      by (auto simp: Let_def split: sum.splits
            intro: step [where mid = "[FetchZoomToken, FetchZoomMeeting _ _ _ _]", simplified])
  next
    case rag
    show ?thesis
    proof (cases "handleChat_index w query history tr")
      case (Pair res tr1)
      from handleChat_index_trace [OF Pair] obtain mid where
        mid: "tr1 = tr @ mid" "filter is_conversation mid = []" by blast
      with rag Cons.prems Pair show ?thesis
        by (auto split: sum.splits intro: step [where mid = mid])
    qed
  next
    case other
    from Cons.prems have "dispatch w query history rest results tr = (r, tr')"
      by (simp only: dispatch_unhandled [OF other])
    then show ?thesis using step [where mid = "[]"] by simp
  qed
qed

subsection \<open>Example worlds\<close>

text \<open>A world in which every service is unreachable, and the worlds below built on it.\<close>

definition offline :: world where
  "offline =
     \<lparr>genAI_embedContent = (\<lambda>t r. Inl (Rejected ''offline'')),
      genAI_generateContent = (\<lambda>t r. Inl (Rejected ''offline'')),
      index_query = (\<lambda>t r. Inl (Rejected ''offline'')),
      fetch_weather = (\<lambda>t location. Inl (Rejected ''offline'')),
      fetch_zoom_token = (\<lambda>t. Inl (Rejected ''offline'')),
      fetch_zoom_meeting = (\<lambda>t accessToken topic invitees start. Inl (Rejected ''offline''))\<rparr>"

definition requesting :: "functionCall list \<Rightarrow> response" where
  "requesting calls = \<lparr>text_response = None, functionCalls = Some calls\<rparr>"

definition answering :: "string \<Rightarrow> response" where
  "answering t = \<lparr>text_response = Some t, functionCalls = None\<rparr>"

definition manila :: functionCall where
  "manila = \<lparr>name = ''get_current_temperature'',
             args = Value (JObject [(''location'', JString ''Manila'')])\<rparr>"

definition meeting :: functionCall where
  "meeting = \<lparr>name = ''create_zoom_meeting'',
              args = Value (JObject [(''topic'', JString ''Sync''),
                                     (''start_time'', JString ''2025-01-01T09:00:00Z''),
                                     (''meeting_invitees'', JArray [])])\<rparr>"

text \<open>The model asks for the tool that the request declares for retrieval.\<close>

definition rag_world :: world where
  "rag_world = offline
     \<lparr>genAI_generateContent := (\<lambda>t r.
        if t = 0
        then Inr (requesting [\<lparr>name = name_declaration ragFunctionDeclaration,
                                args = Value (JObject [])\<rparr>])
        else Inr (answering ''final''))\<rparr>"

text \<open>
  The model asks for the weather, the weather service answers, and the follow-up
  response carries a text and asks for the weather again.
\<close>

definition weather_world :: world where
  "weather_world = offline
     \<lparr>genAI_generateContent := (\<lambda>t r.
        if t = 0 then Inr (requesting [manila])
        else Inr \<lparr>text_response = Some ''30 degrees'', functionCalls = Some [manila]\<rparr>),
      fetch_weather := (\<lambda>t location. Inr (JObject [(''temperature'', JNumber 30)]))\<rparr>"

text \<open>The model asks for the weather and the weather service is unreachable.\<close>

definition weather_down :: world where
  "weather_down = offline
     \<lparr>genAI_generateContent := (\<lambda>t r.
        if t = 0 then Inr (requesting [manila]) else Inr (answering ''final''))\<rparr>"

text \<open>
  The model asks for the weather and for a meeting; the weather service is unreachable,
  Zoom works.
\<close>

definition two_tools_world :: world where
  "two_tools_world = offline
     \<lparr>genAI_generateContent := (\<lambda>t r.
        if t = 0 then Inr (requesting [manila, meeting]) else Inr (answering ''final'')),
      fetch_zoom_token := (\<lambda>t. Inr (JObject [(''access_token'', JString ''abc''),
                                               (''expires_in'', JNumber 3600)])),
      fetch_zoom_meeting := (\<lambda>t accessToken topic invitees start.
        Inr (JObject [(''id'', JNumber 1)]))\<rparr>"

text \<open>
  The model asks for a meeting and for the weather; the token endpoint is unreachable,
  the meeting endpoint refuses the request without a token, the weather service answers.
\<close>

definition token_down :: world where
  "token_down = offline
     \<lparr>genAI_generateContent := (\<lambda>t r.
        if t = 0 then Inr (requesting [meeting, manila]) else Inr (answering ''final'')),
      fetch_zoom_meeting := (\<lambda>t accessToken topic invitees start.
        Inr (JObject [(''code'', JNumber 124), (''message'', JString ''Invalid access token.'')])),
      fetch_weather := (\<lambda>t location. Inr (JObject [(''temperature'', JNumber 30)]))\<rparr>"

subsection \<open>One result per requested call\<close>

text \<open>
  C4 at the tool the request declares as \<open>ragFunctionDeclaration\<close>: the loop compares
  with the name \<open>rag_university_of_baguio_student_handbook\<close>, the declared name is
  \<open>rag_intro_llm_prompt_engineering\<close>, so the requested call takes no branch. The
  follow-up call is issued with a turn that holds no result for it, and no external call
  is made in between.
\<close>

theorem handleGenerate_declared_rag_unanswered:
  "handleGenerate rag_world ''q'' [] [] =
     (Inr (Some ''final''),
      [GenerateContent (initialRequest ''q'' []), GenerateContent (followUpRequest ''q'' [] [])])"
  by (simp add: handleGenerate_def rag_world_def offline_def requesting_def answering_def
        ragFunctionDeclaration_def)

subsection \<open>A single round\<close>

text \<open>
  C5, as the code has it. Whenever the initial generation call returns one or more tool
  requests and the dispatch loop completes (no tool execution throws), the results are
  appended to the conversation as a single turn after the user turn, exactly one more
  generation call is issued, with that conversation and no tools declared, and it is the
  last external call of the request: what \<open>handleGenerate\<close> returns is the text of its
  response (or its error), whatever tool requests the response carries. The generation
  calls over a conversation that the request adds to the trace are two, the initial
  call and this one.
\<close>

theorem handleGenerate_single_round:
  assumes "genAI_generateContent w (length tr) (initialRequest query history) = Inr chatModel"
    and "functionCalls chatModel = Some (functionCall # rest)"
    and "dispatch w query history (functionCall # rest) []
           (tr @ [GenerateContent (initialRequest query history)]) = (Inr results, tr2)"
  shows "handleGenerate w query history tr =
           (map_sum id text_response
              (genAI_generateContent w (length tr2) (followUpRequest query history results)),
            tr2 @ [GenerateContent (followUpRequest query history results)])
         \<and> contents (followUpRequest query history results) =
             Conversation (history @ [userTurn query, \<lparr>role = None, parts = results\<rparr>])
         \<and> tools (followUpRequest query history results) = []
         \<and> filter is_conversation (snd (handleGenerate w query history tr)) =
             filter is_conversation tr
               @ [GenerateContent (initialRequest query history),
                  GenerateContent (followUpRequest query history results)]"
proof -
  have run: "handleGenerate w query history tr =
           (map_sum id text_response
              (genAI_generateContent w (length tr2) (followUpRequest query history results)),
            tr2 @ [GenerateContent (followUpRequest query history results)])"
    using assms
    by (cases "genAI_generateContent w (length tr2) (followUpRequest query history results)")
       (simp_all add: handleGenerate_def Let_def)
  from dispatch_trace [OF assms(3)] obtain new where
    new: "tr2 = (tr @ [GenerateContent (initialRequest query history)]) @ new"
      "filter is_conversation new = []"
    by blast
  have "filter is_conversation (tr2 @ [GenerateContent (followUpRequest query history results)])
          = filter is_conversation tr
              @ [GenerateContent (initialRequest query history),
                 GenerateContent (followUpRequest query history results)]"
    using new by (simp add: initialRequest_def followUpRequest_def)
  with run show ?thesis by (simp add: followUpRequest_def)
qed

lemma weather_dispatch:
  "dispatch weather_world ''q'' [] [manila] [] [GenerateContent (initialRequest ''q'' [])] =
     (Inr [FunctionResponse ''get_current_temperature''
             (Value (JObject [(''temperature'', JNumber 30)]))],
      [GenerateContent (initialRequest ''q'' []), FetchWeather (Value (JString ''Manila''))])"
  by (simp add: weather_world_def offline_def manila_def property_def)

theorem handleGenerate_single_round_witness:
  "handleGenerate weather_world ''q'' [] [] =
     (Inr (Some ''30 degrees''),
      [GenerateContent (initialRequest ''q'' []),
       FetchWeather (Value (JString ''Manila'')),
       GenerateContent (followUpRequest ''q'' []
         [FunctionResponse ''get_current_temperature''
            (Value (JObject [(''temperature'', JNumber 30)]))])])"
proof -
  have first: "genAI_generateContent weather_world (length ([] :: call list))
                 (initialRequest ''q'' []) = Inr (requesting [manila])"
    by (simp add: weather_world_def offline_def)
  have calls: "functionCalls (requesting [manila]) = Some (manila # [])"
    by (simp add: requesting_def)
  have loop: "dispatch weather_world ''q'' [] (manila # []) []
                ([] @ [GenerateContent (initialRequest ''q'' [])]) =
              (Inr [FunctionResponse ''get_current_temperature''
                      (Value (JObject [(''temperature'', JNumber 30)]))],
               [GenerateContent (initialRequest ''q'' []),
                FetchWeather (Value (JString ''Manila''))])"
    using weather_dispatch by simp
  from handleGenerate_single_round [OF first calls loop]
  show ?thesis by (simp add: weather_world_def offline_def)
qed

text \<open>
  C5 as stated fails in the world \<open>weather_down\<close>: the initial call returns one tool
  request, the weather fetch rejects, the rejection leaves \<open>handleGenerate\<close>, and no
  follow-up generation call is issued.
\<close>

theorem handleGenerate_no_follow_up_counterexample:
  "handleGenerate weather_down ''q'' [] [] =
     (Inl (Rejected ''offline''),
      [GenerateContent (initialRequest ''q'' []), FetchWeather (Value (JString ''Manila''))])"
  by (simp add: handleGenerate_def weather_down_def offline_def requesting_def manila_def
        property_def)

subsection \<open>Failures during dispatch\<close>

text \<open>
  C6, as the code has it. A failure of the Zoom token fetch is not thrown out of the
  dispatch loop: \<open>getToken\<close> returns it in its \<open>error\<close> field with a \<open>null\<close> token, the
  meeting request is still sent, with that token, and when it is answered the answer is
  the one result pushed for the invocation and the loop goes on with the remaining
  invocations.
\<close>

theorem dispatch_token_failure_not_thrown:
  assumes "name functionCall = ''create_zoom_meeting''"
    and "args functionCall = Value (JObject properties)"
    and "fetch_zoom_token w (length tr) = Inl e"
    and "fetch_zoom_meeting w (Suc (length tr)) (Value JNull) (property properties ''topic'')
           (property properties ''meeting_invitees'') (property properties ''start_time'')
         = Inr res"
  shows "getToken w tr =
           (\<lparr>access_token = Value JNull, expires_in = Value JNull,
             error_token = Some TypeError\<rparr>, tr @ [FetchZoomToken])
         \<and> dispatch w query history (functionCall # rest) results tr =
             dispatch w query history rest
               (results @ [FunctionResponse ''create_zoom_meeting'' (Value res)])
               (tr @ [FetchZoomToken,
                      FetchZoomMeeting (Value JNull) (property properties ''topic'')
                        (property properties ''meeting_invitees'')
                        (property properties ''start_time'')])"
  using assms by (simp add: getToken_failure)

theorem dispatch_token_failure_not_thrown_witness:
  "name meeting = ''create_zoom_meeting''
   \<and> fetch_zoom_token token_down 1 = Inl (Rejected ''offline'')
   \<and> getToken token_down [GenerateContent (initialRequest ''q'' [])] =
       (\<lparr>access_token = Value JNull, expires_in = Value JNull, error_token = Some TypeError\<rparr>,
        [GenerateContent (initialRequest ''q'' []), FetchZoomToken])
   \<and> dispatch token_down ''q'' [] [meeting, manila] [] [GenerateContent (initialRequest ''q'' [])] =
       (Inr [FunctionResponse ''create_zoom_meeting''
               (Value (JObject [(''code'', JNumber 124),
                                (''message'', JString ''Invalid access token.'')])),
             FunctionResponse ''get_current_temperature''
               (Value (JObject [(''temperature'', JNumber 30)]))],
        [GenerateContent (initialRequest ''q'' []),
         FetchZoomToken,
         FetchZoomMeeting (Value JNull) (Value (JString ''Sync'')) (Value (JArray []))
           (Value (JString ''2025-01-01T09:00:00Z'')),
         FetchWeather (Value (JString ''Manila''))])"
proof -
  let ?tr = "[GenerateContent (initialRequest ''q'' [])]"
  let ?properties = "[(''topic'', JString ''Sync''),
                      (''start_time'', JString ''2025-01-01T09:00:00Z''),
                      (''meeting_invitees'', JArray [])]"
  have n: "name meeting = ''create_zoom_meeting''" by (simp add: meeting_def)
  have a: "args meeting = Value (JObject ?properties)" by (simp add: meeting_def)
  have t: "fetch_zoom_token token_down (length ?tr) = Inl (Rejected ''offline'')"
    by (simp add: token_down_def offline_def)
  have m: "fetch_zoom_meeting token_down (Suc (length ?tr)) (Value JNull)
             (property ?properties ''topic'') (property ?properties ''meeting_invitees'')
             (property ?properties ''start_time'')
           = Inr (JObject [(''code'', JNumber 124),
                           (''message'', JString ''Invalid access token.'')])"
    by (simp add: token_down_def offline_def)
  note step = dispatch_token_failure_not_thrown [OF n a t m, of "''q''" "[]" "[manila]" "[]"]
  have t1: "fetch_zoom_token token_down 1 = Inl (Rejected ''offline'')"
    by (simp add: token_down_def offline_def)
  from step [THEN conjunct1]
  have tok: "getToken token_down ?tr =
       (\<lparr>access_token = Value JNull, expires_in = Value JNull, error_token = Some TypeError\<rparr>,
        [GenerateContent (initialRequest ''q'' []), FetchZoomToken])"
    by simp
  have "dispatch token_down ''q'' [] [meeting, manila] [] ?tr =
        dispatch token_down ''q'' [] [manila]
          ([] @ [FunctionResponse ''create_zoom_meeting''
                   (Value (JObject [(''code'', JNumber 124),
                                    (''message'', JString ''Invalid access token.'')]))])
          (?tr @ [FetchZoomToken,
                  FetchZoomMeeting (Value JNull) (property ?properties ''topic'')
                    (property ?properties ''meeting_invitees'')
                    (property ?properties ''start_time'')])"
    by (rule step [THEN conjunct2])
  also have "\<dots> =
       (Inr [FunctionResponse ''create_zoom_meeting''
               (Value (JObject [(''code'', JNumber 124),
                                (''message'', JString ''Invalid access token.'')])),
             FunctionResponse ''get_current_temperature''
               (Value (JObject [(''temperature'', JNumber 30)]))],
        [GenerateContent (initialRequest ''q'' []),
         FetchZoomToken,
         FetchZoomMeeting (Value JNull) (Value (JString ''Sync'')) (Value (JArray []))
           (Value (JString ''2025-01-01T09:00:00Z'')),
         FetchWeather (Value (JString ''Manila''))])"
    by (simp add: token_down_def offline_def manila_def property_def)
  finally have loop: "dispatch token_down ''q'' [] [meeting, manila] [] ?tr =
       (Inr [FunctionResponse ''create_zoom_meeting''
               (Value (JObject [(''code'', JNumber 124),
                                (''message'', JString ''Invalid access token.'')])),
             FunctionResponse ''get_current_temperature''
               (Value (JObject [(''temperature'', JNumber 30)]))],
        [GenerateContent (initialRequest ''q'' []),
         FetchZoomToken,
         FetchZoomMeeting (Value JNull) (Value (JString ''Sync'')) (Value (JArray []))
           (Value (JString ''2025-01-01T09:00:00Z'')),
         FetchWeather (Value (JString ''Manila''))])" .
  from n t1 tok loop show ?thesis by (intro conjI)
qed

text \<open>
  C6 as stated fails in the world \<open>two_tools_world\<close>: of the two invocations requested,
  the weather fetch rejects; the rejection leaves the loop, so the meeting is never
  requested, and it leaves \<open>handleGenerate\<close>, so the request fails and no follow-up call
  is issued.
\<close>

theorem dispatch_failure_aborts_counterexample:
  "dispatch two_tools_world ''q'' [] [manila, meeting] [] [] =
     (Inl (Rejected ''offline''), [FetchWeather (Value (JString ''Manila''))])
   \<and> handleGenerate two_tools_world ''q'' [] [] =
     (Inl (Rejected ''offline''),
      [GenerateContent (initialRequest ''q'' []), FetchWeather (Value (JString ''Manila''))])"
  by (simp add: handleGenerate_def two_tools_world_def offline_def requesting_def manila_def
        meeting_def property_def)

end
